theory Spec2Isabelle
  imports Complex_Main "HOL-Library.AList" "HOL-Library.Sublist"
begin

section \<open>Data model\<close>

text \<open>
  The documents of the two Mongoose schemas, \<^verbatim>\<open>Event.model\<close> (with its embedded groups,
  projects and criteria) and \<^verbatim>\<open>Vote.model\<close>. Object ids are the strings that
  \<^verbatim>\<open>_id.toString()\<close> yields. A JavaScript \<^verbatim>\<open>Number\<close> is modelled by an exact rational:
  rounding of IEEE doubles is not part of the model. The \<^verbatim>\<open>isVotingOpen\<close> flag is a Boolean
  whose default is \<^verbatim>\<open>null\<close>, hence a \<open>bool option\<close>; an absent (or empty) group password is
  \<open>None\<close> (or \<open>Some []\<close>).
\<close>

record group =
  g_id :: string
  g_name :: string
  g_weight :: rat
  g_password :: "string option"

record project =
  p_id :: string
  p_name :: string
  p_description :: string
  p_teamMembers :: "string list"

record criterion =
  c_name :: string
  c_maxScore :: rat

record event =
  e_id :: string
  e_name :: string
  e_description :: string
  e_date :: string
  e_startTime :: string
  e_closeTime :: string
  e_owner :: string
  e_voteCode :: string
  e_isActive :: bool
  e_isVotingOpen :: "bool option"
  e_groups :: "group list"
  e_projects :: "project list"
  e_criteria :: "criterion list"

text \<open>
  A vote's \<^verbatim>\<open>scores\<close> is a Mongoose \<^verbatim>\<open>Map\<close> of numbers: the list of its entries in
  insertion order, which is the order \<^verbatim>\<open>forEach\<close> visits them in.
\<close>

record vote =
  v_event :: string
  v_project :: string
  v_group :: string
  v_scores :: "(string \<times> rat) list"
  v_voterSessionId :: string
  v_voterName :: "string option"

section \<open>Voting window\<close>

text \<open>
  A \<^verbatim>\<open>Date\<close> is its time value in milliseconds, or \<open>None\<close> for an Invalid Date (time value
  NaN). The relational operators on dates compare the time values, and every comparison
  with NaN is false. The \<^verbatim>\<open>Date\<close> constructor applied to a string is a parameter
  \<open>newDate\<close> of the functions that call it; the current time \<^verbatim>\<open>new Date()\<close> is the
  parameter \<open>now\<close>, always a valid date.
\<close>

type_synonym jsdate = "int option"

definition date_lt :: "jsdate \<Rightarrow> jsdate \<Rightarrow> bool" where
  "date_lt a b = (case (a, b) of (Some x, Some y) \<Rightarrow> x < y | _ \<Rightarrow> False)"

definition date_le :: "jsdate \<Rightarrow> jsdate \<Rightarrow> bool" where
  "date_le a b = (case (a, b) of (Some x, Some y) \<Rightarrow> x \<le> y | _ \<Rightarrow> False)"

definition date_ge :: "jsdate \<Rightarrow> jsdate \<Rightarrow> bool" where
  "date_ge a b = (case (a, b) of (Some x, Some y) \<Rightarrow> x \<ge> y | _ \<Rightarrow> False)"

definition windowStart :: "(string \<Rightarrow> jsdate) \<Rightarrow> event \<Rightarrow> jsdate" where
  "windowStart newDate ev = newDate (e_date ev @ ''T'' @ e_startTime ev)"

definition windowEnd :: "(string \<Rightarrow> jsdate) \<Rightarrow> event \<Rightarrow> jsdate" where
  "windowEnd newDate ev = newDate (e_date ev @ ''T'' @ e_closeTime ev)"

text \<open>The virtual \<^verbatim>\<open>votingStatus\<close> of the event schema.\<close>

definition votingStatus :: "(string \<Rightarrow> jsdate) \<Rightarrow> int \<Rightarrow> event \<Rightarrow> string" where
  "votingStatus newDate now ev =
     (let start = windowStart newDate ev;
          end = windowEnd newDate ev
      in if e_isVotingOpen ev = Some True then ''open''
         else if e_isVotingOpen ev = Some False then ''closed''
         else if date_lt (Some now) start then ''upcoming''
         else if date_ge (Some now) start \<and> date_le (Some now) end then ''open''
         else ''closed'')"

text \<open>The gate at the head of \<^verbatim>\<open>submitVote\<close>: the variable \<^verbatim>\<open>votingOpen\<close>.\<close>

definition votingOpen :: "(string \<Rightarrow> jsdate) \<Rightarrow> int \<Rightarrow> event \<Rightarrow> bool" where
  "votingOpen newDate now ev =
     (let start = windowStart newDate ev;
          end = windowEnd newDate ev
      in if e_isVotingOpen ev = Some True then True
         else if e_isVotingOpen ev = Some False then False
         else date_ge (Some now) start \<and> date_le (Some now) end)"

text \<open>
  A \<^verbatim>\<open>Date\<close> constructor for the examples: it knows the hours of one day, in hours since
  midnight, and takes every other string for an Invalid Date.
\<close>

definition hourOfDay :: "string \<Rightarrow> jsdate" where
  "hourOfDay s =
     (if s = ''2024-12-01T09:00'' then Some 9
      else if s = ''2024-12-01T18:00'' then Some 18
      else None)"

section \<open>Vote intake\<close>

text \<open>
  The body of \<^verbatim>\<open>POST /api/vote/:eventId\<close>. An entry of the \<^verbatim>\<open>votes\<close> array carries a
  project id, a group id (the empty string when the field is missing or empty) and its
  \<^verbatim>\<open>scores\<close>: \<open>Some\<close> of the list \<^verbatim>\<open>Object.entries(scores)\<close> when the value is an
  object, \<open>None\<close> when it is missing or no object. Score values are numbers. (An array,
  which the route rejects and the handler would take for an object, is not modelled.)
\<close>

record voteData =
  projectId :: string
  groupId :: string
  scores :: "(string \<times> rat) list option"

record voteRequest =
  r_eventId :: string
  r_votes :: "voteData list"
  r_voterName :: "string option"
  r_groupPassword :: "string option"

text \<open>The two collections of the document store.\<close>

record db =
  db_events :: "event list"
  db_votes :: "vote list"

text \<open>
  The replies of \<^verbatim>\<open>submitVote\<close>, one constructor for each \<^verbatim>\<open>res.status(...).json(...)\<close>
  of the handler, with the values its message interpolates. The reply 500 of the
  \<^verbatim>\<open>catch\<close> block has no constructor: the model has no store failure and no cast error of
  an id, so nothing in it throws.
\<close>

datatype response =
    ValidationErrors
  | EventNotFoundOrInactive
  | VotingNotOpen
  | VotesArrayRequired
  | ProjectNotFound string
  | GroupNotFound string
  | InvalidGroupPassword
  | ScoresObjectRequired
  | CriterionNotFound string
  | ScoreOutOfRange string rat
  | VoteAlreadySubmitted string
  | VotesSubmitted string nat


text \<open>
  The rules \<^verbatim>\<open>voteValidation\<close> of the route, whose failure is what
  \<^verbatim>\<open>validationResult(req)\<close> reports: a non-empty array of votes, a non-empty project id and
  group id and an object for the scores in each, a voter name of at most 100 characters.
  (A group password, when present, is a string by its type.)
\<close>

definition voteValidation :: "voteRequest \<Rightarrow> bool" where
  "voteValidation req \<longleftrightarrow>
     r_votes req \<noteq> [] \<and>
     list_all (\<lambda>vd. projectId vd \<noteq> []) (r_votes req) \<and>
     list_all (\<lambda>vd. groupId vd \<noteq> []) (r_votes req) \<and>
     list_all (\<lambda>vd. scores vd \<noteq> None) (r_votes req) \<and>
     (case r_voterName req of None \<Rightarrow> True | Some n \<Rightarrow> length n \<le> 100)"

definition findById :: "event list \<Rightarrow> string \<Rightarrow> event option" where
  "findById evs eventId = find (\<lambda>e. e_id e = eventId) evs"

text \<open>
  The inner loop over \<^verbatim>\<open>Object.entries(scores)\<close>: the first entry whose key names no
  criterion, or whose value is below 1 or above the criterion's \<^verbatim>\<open>maxScore\<close>, ends the
  request with its reply. \<open>None\<close> when the loop runs to its end.
\<close>

fun validateScores :: "criterion list \<Rightarrow> (string \<times> rat) list \<Rightarrow> response option" where
  "validateScores cs [] = None"
| "validateScores cs ((criterionName, score) # rest) =
     (case find (\<lambda>c. c_name c = criterionName) cs of
        None \<Rightarrow> Some (CriterionNotFound criterionName)
      | Some criterion \<Rightarrow>
          if score < 1 \<or> score > c_maxScore criterion
          then Some (ScoreOutOfRange criterionName (c_maxScore criterion))
          else validateScores cs rest)"

text \<open>\<^verbatim>\<open>group.password && group.password !== groupPassword\<close>: a password that is set
  and not the empty string, and differs from the one supplied.\<close>

definition passwordMismatch :: "group \<Rightarrow> string option \<Rightarrow> bool" where
  "passwordMismatch g groupPassword \<longleftrightarrow>
     g_password g \<noteq> None \<and> g_password g \<noteq> Some [] \<and> g_password g \<noteq> groupPassword"

text \<open>\<^verbatim>\<open>Vote.findOne({ event, voterSessionId, project })\<close> on the vote collection.\<close>

definition existingVote :: "vote list \<Rightarrow> string \<Rightarrow> string \<Rightarrow> string \<Rightarrow> vote option" where
  "existingVote store eventId voterSessionId pid =
     find (\<lambda>v. v_event v = eventId \<and> v_voterSessionId v = voterSessionId \<and> v_project v = pid) store"

definition newVote :: "voteRequest \<Rightarrow> string \<Rightarrow> voteData \<Rightarrow> (string \<times> rat) list \<Rightarrow> vote" where
  "newVote req voterSessionId vd ss =
     \<lparr>v_event = r_eventId req, v_project = projectId vd, v_group = groupId vd, v_scores = ss,
      v_voterSessionId = voterSessionId, v_voterName = r_voterName req\<rparr>"

text \<open>
  One iteration of the loop over the votes, up to \<^verbatim>\<open>new Vote(...)\<close>: \<open>Inl\<close> the reply when
  a check returns, \<open>Inr\<close> the vote document to save.
\<close>

definition processVote ::
  "event \<Rightarrow> voteRequest \<Rightarrow> string \<Rightarrow> voteData \<Rightarrow> vote list \<Rightarrow> response + vote" where
  "processVote ev req voterSessionId vd store =
     (case find (\<lambda>p. p_id p = projectId vd) (e_projects ev) of
        None \<Rightarrow> Inl (ProjectNotFound (projectId vd))
      | Some project \<Rightarrow>
     (case find (\<lambda>g. g_id g = groupId vd) (e_groups ev) of
        None \<Rightarrow> Inl (GroupNotFound (groupId vd))
      | Some grp \<Rightarrow>
          if passwordMismatch grp (r_groupPassword req) then Inl InvalidGroupPassword
          else
     (case scores vd of
        None \<Rightarrow> Inl ScoresObjectRequired
      | Some ss \<Rightarrow>
     (case validateScores (e_criteria ev) ss of
        Some reply \<Rightarrow> Inl reply
      | None \<Rightarrow>
     (case existingVote store (r_eventId req) voterSessionId (projectId vd) of
        Some v \<Rightarrow> Inl (VoteAlreadySubmitted (p_name project))
      | None \<Rightarrow> Inr (newVote req voterSessionId vd ss))))))"

text \<open>
  The loop \<^verbatim>\<open>for (const voteData of votes)\<close>: the vote collection and \<^verbatim>\<open>savedVotes\<close> are
  threaded through; \<^verbatim>\<open>vote.save()\<close> appends to the collection. The result is the reply
  and the collection as the request leaves it.
\<close>

fun processVotes ::
  "event \<Rightarrow> voteRequest \<Rightarrow> string \<Rightarrow> voteData list \<Rightarrow> vote list \<Rightarrow> vote list
     \<Rightarrow> response \<times> vote list" where
  "processVotes ev req voterSessionId [] store savedVotes =
     (VotesSubmitted voterSessionId (length savedVotes), store)"
| "processVotes ev req voterSessionId (vd # rest) store savedVotes =
     (case processVote ev req voterSessionId vd store of
        Inl reply \<Rightarrow> (reply, store)
      | Inr v \<Rightarrow> processVotes ev req voterSessionId rest (store @ [v]) (savedVotes @ [v]))"

text \<open>
  The handler. \<open>uuid\<close> is the value \<^verbatim>\<open>uuidv4()\<close> returns for this request, \<open>now\<close> the
  clock and \<open>newDate\<close> the \<^verbatim>\<open>Date\<close> constructor.
\<close>

definition submitVote ::
  "(string \<Rightarrow> jsdate) \<Rightarrow> int \<Rightarrow> string \<Rightarrow> db \<Rightarrow> voteRequest \<Rightarrow> response \<times> vote list" where
  "submitVote newDate now uuid d req =
     (if \<not> voteValidation req then (ValidationErrors, db_votes d)
      else case findById (db_events d) (r_eventId req) of
        None \<Rightarrow> (EventNotFoundOrInactive, db_votes d)
      | Some ev \<Rightarrow>
          if \<not> e_isActive ev then (EventNotFoundOrInactive, db_votes d)
          else if \<not> votingOpen newDate now ev then (VotingNotOpen, db_votes d)
          else if r_votes req = [] then (VotesArrayRequired, db_votes d)
          else processVotes ev req uuid (r_votes req) (db_votes d) [])"

section \<open>Results aggregation\<close>

text \<open>
  The helper \<^verbatim>\<open>calculateResults\<close>. A plain JavaScript object used as a dictionary is the
  list of its entries in the order \<^verbatim>\<open>Object.keys\<close> lists them: assigning to a key that is
  present replaces the value where it stands, assigning to a new key appends
  (\<open>AList.update\<close>); changing a field of a stored object is \<open>AList.map_entry\<close>. (Keys
  that are canonical array indices, which JavaScript lists first, and the properties
  inherited from \<^verbatim>\<open>Object.prototype\<close> are outside the model: the keys are 24-digit object
  ids, and group and criterion names.) A \<^verbatim>\<open>Set\<close> is a set and its \<^verbatim>\<open>size\<close> the cardinality.
\<close>

record criterionData =
  cd_total :: rat
  cd_count :: nat
  cd_average :: "rat option"

record projectResult =
  pr_id :: string
  pr_name :: string
  pr_description :: string
  pr_teamMembers :: "string list"
  pr_totalScore :: rat
  pr_averageScore :: rat
  pr_voteCount :: nat
  pr_criteriaScores :: "(string \<times> criterionData) list"
  pr_groupAverages :: "(string \<times> rat) list"
  pr_finalScore :: rat
  pr_rank :: nat

text \<open>A group's record has no \<^verbatim>\<open>rank\<close> before the final \<^verbatim>\<open>map\<close> adds it: 0 until then.\<close>

record groupResult =
  gr_id :: string
  gr_name :: string
  gr_weight :: rat
  gr_totalScore :: rat
  gr_voteCount :: nat
  gr_voterCount :: nat
  gr_rank :: nat

record groupScore =
  gs_total :: rat
  gs_count :: nat

record tally =
  projectResults :: "(string \<times> projectResult) list"
  groupResults :: "(string \<times> groupResult) list"
  groupVoters :: "(string \<times> string set) list"
  projectGroupScores :: "(string \<times> (string \<times> groupScore) list) list"

record results =
  res_projects :: "projectResult list"
  res_groups :: "groupResult list"

definition initialProject :: "project \<Rightarrow> projectResult" where
  "initialProject p =
     \<lparr>pr_id = p_id p, pr_name = p_name p, pr_description = p_description p,
      pr_teamMembers = p_teamMembers p, pr_totalScore = 0, pr_averageScore = 0,
      pr_voteCount = 0, pr_criteriaScores = [], pr_groupAverages = [], pr_finalScore = 0,
      pr_rank = 0\<rparr>"

text \<open>
  \<^verbatim>\<open>groupWeights && groupWeights[id] !== undefined ? groupWeights[id] : group.weight\<close>, the
  optional third argument being \<open>None\<close> for \<^verbatim>\<open>null\<close>.
\<close>

definition effectiveWeight :: "(string \<times> rat) list option \<Rightarrow> group \<Rightarrow> rat" where
  "effectiveWeight groupWeights g =
     (case groupWeights of
        None \<Rightarrow> g_weight g
      | Some ws \<Rightarrow> (case map_of ws (g_id g) of Some w \<Rightarrow> w | None \<Rightarrow> g_weight g))"

definition initialGroup :: "(string \<times> rat) list option \<Rightarrow> group \<Rightarrow> groupResult" where
  "initialGroup groupWeights g =
     \<lparr>gr_id = g_id g, gr_name = g_name g, gr_weight = effectiveWeight groupWeights g,
      gr_totalScore = 0, gr_voteCount = 0, gr_voterCount = 0, gr_rank = 0\<rparr>"

definition initProjectResults :: "event \<Rightarrow> (string \<times> projectResult) list" where
  "initProjectResults ev =
     fold (\<lambda>p tbl. AList.update (p_id p) (initialProject p) tbl) (e_projects ev) []"

definition initGroupResults ::
  "(string \<times> rat) list option \<Rightarrow> event \<Rightarrow> (string \<times> groupResult) list" where
  "initGroupResults groupWeights ev =
     fold (\<lambda>g tbl. AList.update (g_id g) (initialGroup groupWeights g) tbl) (e_groups ev) []"

definition groupIdToName :: "event \<Rightarrow> (string \<times> string) list" where
  "groupIdToName ev = fold (\<lambda>g tbl. AList.update (g_id g) (g_name g) tbl) (e_groups ev) []"

definition initGroupVoters :: "event \<Rightarrow> (string \<times> string set) list" where
  "initGroupVoters ev = fold (\<lambda>g tbl. AList.update (g_id g) {} tbl) (e_groups ev) []"

definition initProjectGroupScores ::
  "string list \<Rightarrow> string list \<Rightarrow> (string \<times> (string \<times> groupScore) list) list" where
  "initProjectGroupScores pids gids =
     fold (\<lambda>pid tbl.
        AList.update pid
          (fold (\<lambda>gid row. AList.update gid \<lparr>gs_total = 0, gs_count = 0\<rparr> row) gids []) tbl)
       pids []"

definition initTally :: "event \<Rightarrow> (string \<times> rat) list option \<Rightarrow> tally" where
  "initTally ev groupWeights =
     (let prs = initProjectResults ev; grs = initGroupResults groupWeights ev
      in \<lparr>projectResults = prs, groupResults = grs, groupVoters = initGroupVoters ev,
          projectGroupScores = initProjectGroupScores (map fst prs) (map fst grs)\<rparr>)"

text \<open>
  The body of \<^verbatim>\<open>vote.scores.forEach\<close>, on the project's \<^verbatim>\<open>criteriaScores\<close> and the
  running \<^verbatim>\<open>projectTotal\<close>.
\<close>

definition addScore ::
  "string \<times> rat \<Rightarrow> (string \<times> criterionData) list \<times> rat
     \<Rightarrow> (string \<times> criterionData) list \<times> rat" where
  "addScore entry acc =
     (case (entry, acc) of ((criterion, score), (cs, projectTotal)) \<Rightarrow>
        (let cs1 = (if map_of cs criterion = None
                    then AList.update criterion
                           \<lparr>cd_total = 0, cd_count = 0, cd_average = None\<rparr> cs
                    else cs)
         in (AList.map_entry criterion
               (\<lambda>d. d\<lparr>cd_total := cd_total d + score, cd_count := cd_count d + 1\<rparr>) cs1,
             projectTotal + score)))"

text \<open>The body of \<^verbatim>\<open>votes.forEach\<close>.\<close>

definition tallyVote :: "vote \<Rightarrow> tally \<Rightarrow> tally" where
  "tallyVote v t =
     (case map_of (projectResults t) (v_project v) of
        None \<Rightarrow> t
      | Some pr \<Rightarrow>
     (case map_of (groupResults t) (v_group v) of
        None \<Rightarrow> t
      | Some gr \<Rightarrow>
          (case fold addScore (v_scores v) (pr_criteriaScores pr, 0) of
             (cs, projectTotal) \<Rightarrow>
               \<lparr>projectResults =
                  AList.map_entry (v_project v)
                    (\<lambda>p. p\<lparr>pr_voteCount := pr_voteCount p + 1, pr_criteriaScores := cs,
                            pr_totalScore := pr_totalScore p + projectTotal\<rparr>)
                    (projectResults t),
                groupResults =
                  AList.map_entry (v_group v)
                    (\<lambda>g. g\<lparr>gr_voteCount := gr_voteCount g + 1,
                            gr_totalScore := gr_totalScore g + projectTotal\<rparr>)
                    (groupResults t),
                groupVoters =
                  AList.map_entry (v_group v) (insert (v_voterSessionId v)) (groupVoters t),
                projectGroupScores =
                  AList.map_entry (v_project v)
                    (AList.map_entry (v_group v)
                       (\<lambda>s. s\<lparr>gs_total := gs_total s + projectTotal,
                               gs_count := gs_count s + 1\<rparr>))
                    (projectGroupScores t)\<rparr>)))"

text \<open>
  The passes after the votes. Each reads a table at a key that an earlier pass has put
  there: \<open>groupVoters\<close>, the rows of \<open>projectGroupScores\<close> and \<open>groupIdToName\<close> have the
  keys of \<open>groupResults\<close>, and \<open>groupAverages\<close> has the names of its groups (lemmas
  \<open>groupVoters_defined\<close>, \<open>groupScoreAt_defined\<close>, \<open>groupIdToName_defined\<close> and
  \<open>groupAverages_defined\<close>). So no lookup misses, and what the model returns at a missing
  key, where JavaScript would throw or compute with \<^verbatim>\<open>undefined\<close>, is never used.
\<close>

definition setVoterCounts :: "tally \<Rightarrow> (string \<times> groupResult) list" where
  "setVoterCounts t =
     map (\<lambda>(gid, g).
            (gid, g\<lparr>gr_voterCount :=
               (case map_of (groupVoters t) gid of Some s \<Rightarrow> card s | None \<Rightarrow> 0)\<rparr>))
       (groupResults t)"

text \<open>\<^verbatim>\<open>projectGroupScores[projectId][groupId]\<close>.\<close>

definition groupScoreAt ::
  "(string \<times> (string \<times> groupScore) list) list \<Rightarrow> string \<Rightarrow> string \<Rightarrow> groupScore option" where
  "groupScoreAt pgs pid gid =
     (case map_of pgs pid of None \<Rightarrow> None | Some row \<Rightarrow> map_of row gid)"

definition groupAverage ::
  "(string \<times> (string \<times> groupScore) list) list \<Rightarrow> string \<Rightarrow> string \<Rightarrow> rat" where
  "groupAverage pgs pid gid =
     (case groupScoreAt pgs pid gid of
        None \<Rightarrow> 0
      | Some groupScore \<Rightarrow>
          if gs_count groupScore > 0
          then gs_total groupScore / of_nat (gs_count groupScore) else 0)"

definition nameOfGroup :: "(string \<times> string) list \<Rightarrow> string \<Rightarrow> string" where
  "nameOfGroup names gid = (case map_of names gid of Some n \<Rightarrow> n | None \<Rightarrow> ''undefined'')"

definition setAverages ::
  "(string \<times> string) list \<Rightarrow> (string \<times> (string \<times> groupScore) list) list \<Rightarrow> string list
     \<Rightarrow> string \<times> projectResult \<Rightarrow> string \<times> projectResult" where
  "setAverages names pgs gids entry =
     (case entry of (pid, project) \<Rightarrow>
        (let p1 = (if pr_voteCount project > 0
                   then project\<lparr>pr_averageScore :=
                                   pr_totalScore project / of_nat (pr_voteCount project),
                                 pr_criteriaScores :=
                                   map (\<lambda>(criterion, d).
                                          (criterion,
                                           d\<lparr>cd_average :=
                                               Some (cd_total d / of_nat (cd_count d))\<rparr>))
                                     (pr_criteriaScores project)\<rparr>
                   else project)
         in (pid,
             p1\<lparr>pr_groupAverages :=
                  fold (\<lambda>gid ga.
                          AList.update (nameOfGroup names gid)
                            (groupAverage pgs pid gid) ga)
                    gids (pr_groupAverages p1)\<rparr>)))"

text \<open>\<^verbatim>\<open>project.groupAverages[groupName]\<close>, read by the final-score pass.\<close>

definition groupAverageOf :: "projectResult \<Rightarrow> string \<Rightarrow> rat" where
  "groupAverageOf project groupName =
     (case map_of (pr_groupAverages project) groupName of Some avg \<Rightarrow> avg | None \<Rightarrow> 0)"

definition weightedTotals :: "(string \<times> groupResult) list \<Rightarrow> projectResult \<Rightarrow> rat \<times> rat" where
  "weightedTotals grs project =
     fold (\<lambda>(gid, g) (weightedSum, totalWeight).
             (weightedSum + groupAverageOf project (gr_name g) * gr_weight g,
              totalWeight + gr_weight g))
       grs (0, 0)"

definition setFinalScore ::
  "(string \<times> groupResult) list \<Rightarrow> string \<times> projectResult \<Rightarrow> string \<times> projectResult" where
  "setFinalScore grs entry =
     (case entry of (pid, project) \<Rightarrow>
        (case weightedTotals grs project of (weightedSum, totalWeight) \<Rightarrow>
           (pid,
            project\<lparr>pr_finalScore :=
                      (if totalWeight > 0 then weightedSum / totalWeight else 0)\<rparr>)))"

text \<open>
  \<^verbatim>\<open>Array.prototype.sort\<close> with the comparator \<^verbatim>\<open>(a, b) => b.key - a.key\<close>: a stable
  sort into descending order of the key, which is the stable insertion sort \<open>sort_key\<close>
  on the negated key.
\<close>

definition sortDescending :: "('a \<Rightarrow> rat) \<Rightarrow> 'a list \<Rightarrow> 'a list" where
  "sortDescending key xs = sort_key (\<lambda>x. - key x) xs"

definition rankProjects :: "projectResult list \<Rightarrow> projectResult list" where
  "rankProjects ps = map (\<lambda>(index, p). p\<lparr>pr_rank := index + 1\<rparr>) (enumerate 0 ps)"

definition rankGroups :: "groupResult list \<Rightarrow> groupResult list" where
  "rankGroups gs = map (\<lambda>(index, g). g\<lparr>gr_rank := index + 1\<rparr>) (enumerate 0 gs)"

definition tallied :: "event \<Rightarrow> vote list \<Rightarrow> (string \<times> rat) list option \<Rightarrow> tally" where
  "tallied ev votes groupWeights = fold tallyVote votes (initTally ev groupWeights)"

text \<open>The tables as they stand before the two sorts.\<close>

definition finalGroups ::
  "event \<Rightarrow> vote list \<Rightarrow> (string \<times> rat) list option \<Rightarrow> (string \<times> groupResult) list" where
  "finalGroups ev votes groupWeights = setVoterCounts (tallied ev votes groupWeights)"

definition finalProjects ::
  "event \<Rightarrow> vote list \<Rightarrow> (string \<times> rat) list option \<Rightarrow> (string \<times> projectResult) list" where
  "finalProjects ev votes groupWeights =
     (let t = tallied ev votes groupWeights;
          grs = finalGroups ev votes groupWeights
      in map (setFinalScore grs)
           (map (setAverages (groupIdToName ev) (projectGroupScores t) (map fst grs))
              (projectResults t)))"

definition calculateResults ::
  "event \<Rightarrow> vote list \<Rightarrow> (string \<times> rat) list option \<Rightarrow> results" where
  "calculateResults ev votes groupWeights =
     \<lparr>res_projects =
        rankProjects (sortDescending pr_finalScore
          (map snd (finalProjects ev votes groupWeights))),
      res_groups =
        rankGroups (sortDescending gr_totalScore
          (map snd (finalGroups ev votes groupWeights)))\<rparr>"

text \<open>
  The two endpoints. \<^verbatim>\<open>Vote.find({ event: eventId })\<close> selects the votes of the event from
  the collection. The query parameter \<^verbatim>\<open>weights\<close> of the public endpoint is absent, or
  text that \<^verbatim>\<open>JSON.parse\<close> rejects, or an object of numbers.
\<close>

datatype weightsQuery = NoWeights | MalformedWeights | Weights "(string \<times> rat) list"

record resultsData =
  rd_eventId :: string
  rd_eventName :: string
  rd_results :: results
  rd_totalVotes :: nat
  rd_totalVoters :: nat

datatype resultsReply =
    ResultsOk resultsData
  | ResultsEventNotFound
  | ResultsNotAuthorized
  | ResultsInvalidWeights

definition votesOfEvent :: "db \<Rightarrow> string \<Rightarrow> vote list" where
  "votesOfEvent d eventId = filter (\<lambda>v. v_event v = eventId) (db_votes d)"

definition resultsReplyData ::
  "event \<Rightarrow> vote list \<Rightarrow> (string \<times> rat) list option \<Rightarrow> resultsData" where
  "resultsReplyData ev votes groupWeights =
     \<lparr>rd_eventId = e_id ev, rd_eventName = e_name ev,
      rd_results = calculateResults ev votes groupWeights,
      rd_totalVotes = length votes,
      rd_totalVoters = card (set (map v_voterSessionId votes))\<rparr>"

definition getResults :: "db \<Rightarrow> string \<Rightarrow> string \<Rightarrow> resultsReply" where
  "getResults d eventId userId =
     (case findById (db_events d) eventId of
        None \<Rightarrow> ResultsEventNotFound
      | Some ev \<Rightarrow>
          if e_owner ev \<noteq> userId then ResultsNotAuthorized
          else ResultsOk (resultsReplyData ev (votesOfEvent d eventId) None))"

text \<open>The variable \<^verbatim>\<open>groupWeights\<close> of the public endpoint: \<^verbatim>\<open>null\<close> unless the parameter is given.\<close>

definition groupWeightsOf :: "weightsQuery \<Rightarrow> (string \<times> rat) list option" where
  "groupWeightsOf weights = (case weights of Weights ws \<Rightarrow> Some ws | _ \<Rightarrow> None)"

definition getPublicResults :: "db \<Rightarrow> string \<Rightarrow> weightsQuery \<Rightarrow> resultsReply" where
  "getPublicResults d eventId weights =
     (case findById (db_events d) eventId of
        None \<Rightarrow> ResultsEventNotFound
      | Some ev \<Rightarrow>
          if \<not> e_isActive ev then ResultsEventNotFound
          else if weights = MalformedWeights then ResultsInvalidWeights
          else ResultsOk (resultsReplyData ev (votesOfEvent d eventId) (groupWeightsOf weights)))"

section \<open>Example data\<close>

text \<open>
  A small event for the worked examples: two groups, Judges with weight 70 and Public with
  weight 30, two projects and two criteria of maximum 10, voting from 09:00 to 18:00.
\<close>

definition judges :: group where
  "judges = \<lparr>g_id = ''g1'', g_name = ''Judges'', g_weight = 70, g_password = None\<rparr>"

definition public :: group where
  "public = \<lparr>g_id = ''g2'', g_name = ''Public'', g_weight = 30, g_password = None\<rparr>"

definition alpha :: project where
  "alpha = \<lparr>p_id = ''p1'', p_name = ''Alpha'', p_description = [], p_teamMembers = []\<rparr>"

definition beta :: project where
  "beta = \<lparr>p_id = ''p2'', p_name = ''Beta'', p_description = [], p_teamMembers = []\<rparr>"

definition demoEvent :: event where
  "demoEvent = \<lparr>e_id = ''e1'', e_name = ''Demo'', e_description = [], e_date = ''2024-12-01'',
     e_startTime = ''09:00'', e_closeTime = ''18:00'', e_owner = ''u1'', e_voteCode = ''ABC123'',
     e_isActive = True, e_isVotingOpen = None, e_groups = [judges, public],
     e_projects = [alpha, beta],
     e_criteria = [\<lparr>c_name = ''Creativity'', c_maxScore = 10\<rparr>,
                   \<lparr>c_name = ''Execution'', c_maxScore = 10\<rparr>]\<rparr>"

text \<open>The same event with the two times of day exchanged: it closes before it starts.\<close>

definition lateStart :: event where
  "lateStart = demoEvent\<lparr>e_startTime := ''18:00'', e_closeTime := ''09:00''\<rparr>"

definition demoDb :: db where
  "demoDb = \<lparr>db_events = [demoEvent], db_votes = []\<rparr>"

definition entry :: "string \<Rightarrow> string \<Rightarrow> (string \<times> rat) list option \<Rightarrow> voteData" where
  "entry p g ss = \<lparr>projectId = p, groupId = g, scores = ss\<rparr>"

definition batch :: "voteData list \<Rightarrow> voteRequest" where
  "batch vds = \<lparr>r_eventId = ''e1'', r_votes = vds, r_voterName = None, r_groupPassword = None\<rparr>"

definition scored :: "string \<Rightarrow> string \<Rightarrow> string \<Rightarrow> (string \<times> rat) list \<Rightarrow> vote" where
  "scored sid p g ss =
     \<lparr>v_event = ''e1'', v_project = p, v_group = g, v_scores = ss, v_voterSessionId = sid,
      v_voterName = None\<rparr>"

text \<open>One vote of a judge with total 10 and one of the public with total 4, both for Alpha.\<close>

definition demoVotes :: "vote list" where
  "demoVotes = [scored ''s1'' ''p1'' ''g1'' [(''Creativity'', 6), (''Execution'', 4)],
                scored ''s2'' ''p1'' ''g2'' [(''Creativity'', 2), (''Execution'', 2)]]"

text \<open>
  The vote document that an accepted entry leaves in the collection (the scores of an entry
  without a scores object, which is never accepted, read as empty).
\<close>

definition savedVote :: "voteRequest \<Rightarrow> string \<Rightarrow> voteData \<Rightarrow> vote" where
  "savedVote req voterSessionId vd =
     newVote req voterSessionId vd (case scores vd of Some ss \<Rightarrow> ss | None \<Rightarrow> [])"

text \<open>Two groups with distinct ids that share the name Judges.\<close>

definition twinEvent :: event where
  "twinEvent = demoEvent\<lparr>e_groups := [judges, public\<lparr>g_name := ''Judges''\<rparr>]\<rparr>"

text \<open>A single vote, of the public for Beta, with total 10.\<close>

definition betaVotes :: "vote list" where
  "betaVotes = [scored ''s1'' ''p2'' ''g2'' [(''Creativity'', 6), (''Execution'', 4)]]"

text \<open>A vote for a project that the event does not list.\<close>

definition orphanVote :: vote where
  "orphanVote = scored ''s3'' ''p9'' ''g1'' [(''Creativity'', 5)]"

text \<open>The collection holding the two votes of the example and the vote for no project.\<close>

definition orphanDb :: db where
  "orphanDb = \<lparr>db_events = [demoEvent], db_votes = demoVotes @ [orphanVote]\<rparr>"

text \<open>
  The total of a vote, the sum of its scores, and the mean of the totals of the votes that
  one group has cast for one project (0 when there is none): the per-group average score
  as the specification words it, to be compared with what the tables hold.
\<close>

definition voteTotal :: "vote \<Rightarrow> rat" where
  "voteTotal v = sum_list (map snd (v_scores v))"

definition spec_groupAverage :: "vote list \<Rightarrow> string \<Rightarrow> string \<Rightarrow> rat" where
  "spec_groupAverage votes pid gid =
     (let vs = filter (\<lambda>v. v_project v = pid \<and> v_group v = gid) votes
      in if vs = [] then 0 else sum_list (map voteTotal vs) / of_nat (length vs))"

text \<open>
  The guard of the body of \<^verbatim>\<open>votes.forEach\<close>,
  \<^verbatim>\<open>projectResults[projectId] && groupResults[groupId]\<close>, on the keys of the two tables.
\<close>

definition counted :: "tally \<Rightarrow> vote \<Rightarrow> bool" where
  "counted t v \<longleftrightarrow>
     v_project v \<in> set (map fst (projectResults t)) \<and> v_group v \<in> set (map fst (groupResults t))"




lemmas demo_defs = demoEvent_def judges_def public_def alpha_def beta_def

lemmas intake_defs = submitVote_def voteValidation_def findById_def votingOpen_def
  windowStart_def windowEnd_def hourOfDay_def date_ge_def date_le_def processVote_def
  passwordMismatch_def existingVote_def newVote_def savedVote_def demoDb_def entry_def batch_def
  demo_defs

lemmas aggregate_defs = calculateResults_def finalProjects_def finalGroups_def tallied_def
  initTally_def initProjectResults_def initGroupResults_def initGroupVoters_def
  initProjectGroupScores_def groupIdToName_def initialProject_def initialGroup_def
  effectiveWeight_def tallyVote_def addScore_def setVoterCounts_def setAverages_def
  setFinalScore_def weightedTotals_def groupAverageOf_def groupAverage_def groupScoreAt_def
  nameOfGroup_def
  sortDescending_def rankProjects_def rankGroups_def

section \<open>The voting window\<close>

text \<open>
  Claim C2, as amended. A manual override decides the status whatever the window is:
  \<^verbatim>\<open>isVotingOpen\<close> true gives ``open'' and false gives ``closed''. Without an override,
  and with a start and an end that are valid dates, the status is ``upcoming'' when
  \<open>now < start\<close>, ``open'' when \<open>start \<le> now \<le> end\<close>, and ``closed'' when \<open>now > end\<close>
  and \<open>now\<close> is not before the start. The gate of \<^verbatim>\<open>submitVote\<close> lets a request through
  exactly when the status is ``open''.
\<close>

theorem votingStatus_rule:
  "(e_isVotingOpen ev = Some True \<longrightarrow> votingStatus newDate now ev = ''open'') \<and>
   (e_isVotingOpen ev = Some False \<longrightarrow> votingStatus newDate now ev = ''closed'') \<and>
   (e_isVotingOpen ev = None \<and> windowStart newDate ev = Some start
      \<and> windowEnd newDate ev = Some stop \<longrightarrow>
      (now < start \<longrightarrow> votingStatus newDate now ev = ''upcoming'') \<and>
      (start \<le> now \<and> now \<le> stop \<longrightarrow> votingStatus newDate now ev = ''open'') \<and>
      (start \<le> now \<and> stop < now \<longrightarrow> votingStatus newDate now ev = ''closed'')) \<and>
   (votingOpen newDate now ev \<longleftrightarrow> votingStatus newDate now ev = ''open'')"
  by (auto simp: votingStatus_def votingOpen_def date_lt_def date_le_def date_ge_def Let_def
      split: option.splits)

theorem votingStatus_rule_witness:
  "votingStatus hourOfDay 12 (demoEvent\<lparr>e_isVotingOpen := Some True\<rparr>) = ''open'' \<and>
   votingStatus hourOfDay 12 (demoEvent\<lparr>e_isVotingOpen := Some False\<rparr>) = ''closed'' \<and>
   votingStatus hourOfDay 8 demoEvent = ''upcoming'' \<and>
   votingStatus hourOfDay 12 demoEvent = ''open'' \<and>
   votingStatus hourOfDay 19 demoEvent = ''closed''"
proof -
  have s: "windowStart hourOfDay demoEvent = Some 9" and e: "windowEnd hourOfDay demoEvent = Some 18"
    by (simp_all add: windowStart_def windowEnd_def hourOfDay_def demoEvent_def)
  have n: "e_isVotingOpen demoEvent = None" by (simp add: demoEvent_def)
  show ?thesis
    using votingStatus_rule [where ev = "demoEvent\<lparr>e_isVotingOpen := Some True\<rparr>"
        and newDate = hourOfDay and now = 12]
      votingStatus_rule [where ev = "demoEvent\<lparr>e_isVotingOpen := Some False\<rparr>"
        and newDate = hourOfDay and now = 12]
      votingStatus_rule [where ev = demoEvent and newDate = hourOfDay and start = 9
        and stop = 18 and now = 8]
      votingStatus_rule [where ev = demoEvent and newDate = hourOfDay and start = 9
        and stop = 18 and now = 12]
      votingStatus_rule [where ev = demoEvent and newDate = hourOfDay and start = 9
        and stop = 18 and now = 19] s e n
    by simp
qed

text \<open>
  The claim as written also makes the status ``closed'' whenever \<open>now > end\<close>. Nothing
  orders the two times of an event: for one that starts at 18:00 and closes at 09:00, at
  noon the end has passed, yet the test \<open>now < start\<close> comes first and the status is
  ``upcoming''.
\<close>

theorem votingStatus_closed_after_end_counterexample:
  "e_isVotingOpen lateStart = None \<and> windowEnd hourOfDay lateStart = Some 9 \<and> (9::int) < 12 \<and>
   votingStatus hourOfDay 12 lateStart = ''upcoming'' \<and>
   votingStatus hourOfDay 12 lateStart \<noteq> ''closed''"
  by (simp add: votingStatus_def windowStart_def windowEnd_def hourOfDay_def lateStart_def
      demoEvent_def date_lt_def)

section \<open>Vote intake: the loop over a batch\<close>


lemma processVote_Inr:
  "processVote ev req sid vd store = Inr v \<Longrightarrow> v = savedVote req sid vd"
  by (auto simp: processVote_def savedVote_def split: option.splits if_splits)

lemma validateScores_not_submitted:
  "validateScores cs ss \<noteq> Some (VotesSubmitted sid n)"
  by (induction cs ss rule: validateScores.induct) (auto split: option.splits)

lemma processVote_not_submitted:
  "processVote ev req sid vd store \<noteq> Inl (VotesSubmitted sid' n)"
  by (auto simp: processVote_def validateScores_not_submitted split: option.splits if_splits)

lemma processVotes_append:
  "processVotes ev req sid pre store saved = (VotesSubmitted sid n, store') \<Longrightarrow>
   processVotes ev req sid (pre @ rest) store saved
     = processVotes ev req sid rest store' (saved @ map (savedVote req sid) pre)
   \<and> store' = store @ map (savedVote req sid) pre"
proof (induction pre arbitrary: store saved)
  case Nil
  then show ?case by simp
next
  case (Cons vd pre)
  show ?case
  proof (cases "processVote ev req sid vd store")
    case (Inl reply)
    with Cons.prems have "reply = VotesSubmitted sid n" by simp
    with Inl processVote_not_submitted show ?thesis by blast
  next
    case (Inr v)
    then have v: "v = savedVote req sid vd" by (rule processVote_Inr)
    from Cons.prems Inr
    have "processVotes ev req sid pre (store @ [v]) (saved @ [v]) = (VotesSubmitted sid n, store')"
      by simp
    from Cons.IH [OF this] Inr v show ?thesis by simp
  qed
qed

lemma submitVote_loop:
  assumes "voteValidation req" "findById (db_events d) (r_eventId req) = Some ev"
    "e_isActive ev" "votingOpen newDate now ev"
  shows "submitVote newDate now uuid d req = processVotes ev req uuid (r_votes req) (db_votes d) []"
  using assms by (simp add: submitVote_def voteValidation_def)
lemma validateScores_not_duplicate:
  "validateScores cs ss = Some (VoteAlreadySubmitted name) \<Longrightarrow> False"
  by (induction cs ss rule: validateScores.induct) (auto split: option.splits if_splits)

lemma existingVote_append_fresh:
  assumes "\<forall>v\<in>set store. v_voterSessionId v \<noteq> sid"
  shows "(existingVote (store @ map (savedVote req sid) pre) (r_eventId req) sid pid = None)
           = (pid \<notin> set (map projectId pre))"
proof -
  have new: "\<And>vd. (v_event (savedVote req sid vd) = r_eventId req
      \<and> v_voterSessionId (savedVote req sid vd) = sid
      \<and> v_project (savedVote req sid vd) = pid) = (projectId vd = pid)"
    by (simp add: savedVote_def newVote_def)
  let ?P = "\<lambda>v. v_event v = r_eventId req \<and> v_voterSessionId v = sid \<and> v_project v = pid"
  have "(existingVote (store @ map (savedVote req sid) pre) (r_eventId req) sid pid = None)
      = (\<forall>v\<in>set (store @ map (savedVote req sid) pre). \<not> ?P v)"
    unfolding existingVote_def find_None_iff by blast
  also have "\<dots> = ((\<forall>v\<in>set store. \<not> ?P v) \<and> (\<forall>vd\<in>set pre. \<not> ?P (savedVote req sid vd)))"
    by (simp only: set_append set_map ball_Un ball_simps)
  also have "\<dots> = (\<forall>vd\<in>set pre. projectId vd \<noteq> pid)"
    using assms by (simp only: new) blast
  finally show ?thesis by auto
qed

lemma processVotes_distinct_no_duplicate:
  assumes "distinct (map projectId vds)"
    and "\<forall>v\<in>set store. v_event v = r_eventId req \<and> v_voterSessionId v = sid
           \<longrightarrow> v_project v \<notin> set (map projectId vds)"
  shows "fst (processVotes ev req sid vds store saved) \<noteq> VoteAlreadySubmitted name"
  using assms
proof (induction vds arbitrary: store saved)
  case Nil
  then show ?case by simp
next
  case (Cons vd vds)
  from Cons.prems(2)
  have none: "existingVote store (r_eventId req) sid (projectId vd) = None"
    by (auto simp: existingVote_def find_None_iff)
  show ?case
  proof (cases "processVote ev req sid vd store")
    case (Inl reply)
    with none have "reply \<noteq> VoteAlreadySubmitted name"
      by (auto simp: processVote_def split: option.splits if_splits
          dest: validateScores_not_duplicate)
    with Inl show ?thesis by simp
  next
    case (Inr v)
    then have v: "v = savedVote req sid vd" by (rule processVote_Inr)
    have "\<forall>w\<in>set (store @ [v]). v_event w = r_eventId req \<and> v_voterSessionId w = sid
            \<longrightarrow> v_project w \<notin> set (map projectId vds)"
      using Cons.prems v by (auto simp: savedVote_def newVote_def)
    moreover have "distinct (map projectId vds)" using Cons.prems(1) by simp
    ultimately have "fst (processVotes ev req sid vds (store @ [v]) (saved @ [v]))
        \<noteq> VoteAlreadySubmitted name" by (rule Cons.IH [rotated])
    with Inr show ?thesis by simp
  qed
qed

text \<open>
  Claim C4. When the entries before the i-th have all been accepted and a check of the
  i-th entry fails, the request ends with the reply of that check: the collection is left
  as the accepted entries made it, with the vote of each of them appended in order and
  none removed, and nothing of the later entries is in it.
\<close>

theorem failed_entry_aborts_batch:
  assumes "voteValidation req" and "findById (db_events d) (r_eventId req) = Some ev"
    and "e_isActive ev" and "votingOpen newDate now ev"
    and "r_votes req = pre @ vd # post"
    and "processVotes ev req uuid pre (db_votes d) [] = (VotesSubmitted uuid n, store')"
    and "processVote ev req uuid vd store' = Inl reply"
  shows "submitVote newDate now uuid d req = (reply, store') \<and>
         store' = db_votes d @ map (savedVote req uuid) pre"
proof -
  from processVotes_append [OF assms(6), of "vd # post"] assms(7)
  have "processVotes ev req uuid (pre @ vd # post) (db_votes d) [] = (reply, store')"
    and "store' = db_votes d @ map (savedVote req uuid) pre" by simp_all
  with submitVote_loop [OF assms(1-4), of uuid] assms(5) show ?thesis by simp
qed

theorem failed_entry_aborts_batch_witness:
  "submitVote hourOfDay 12 ''s1'' demoDb
     (batch [entry ''p1'' ''g1'' (Some [(''Creativity'', 8)]),
             entry ''p2'' ''g1'' (Some [(''Creativity'', 11)]),
             entry ''p2'' ''g2'' (Some [(''Creativity'', 9)])])
   = (ScoreOutOfRange ''Creativity'' 10,
      [\<lparr>v_event = ''e1'', v_project = ''p1'', v_group = ''g1'',
        v_scores = [(''Creativity'', 8)], v_voterSessionId = ''s1'', v_voterName = None\<rparr>])"
  using failed_entry_aborts_batch [where d = demoDb and uuid = "''s1''" and ev = demoEvent
      and newDate = hourOfDay and now = 12
      and pre = "[entry ''p1'' ''g1'' (Some [(''Creativity'', 8)])]"
      and vd = "entry ''p2'' ''g1'' (Some [(''Creativity'', 11)])"
      and post = "[entry ''p2'' ''g2'' (Some [(''Creativity'', 9)])]"
      and n = 1 and reply = "ScoreOutOfRange ''Creativity'' 10"
      and req = "batch [entry ''p1'' ''g1'' (Some [(''Creativity'', 8)]),
             entry ''p2'' ''g1'' (Some [(''Creativity'', 11)]),
             entry ''p2'' ''g2'' (Some [(''Creativity'', 9)])]"
      and store' = "[\<lparr>v_event = ''e1'', v_project = ''p1'', v_group = ''g1'',
        v_scores = [(''Creativity'', 8)], v_voterSessionId = ''s1'', v_voterName = None\<rparr>]"]
  by (simp add: intake_defs)

text \<open>
  Claim C3, as amended. With a session id that no stored vote carries, the lookup for an
  existing vote of the session and the project finds one exactly when an earlier entry of
  the same batch names the same project; so the reply ``Vote already submitted'' is not
  reached by a batch whose entries name pairwise distinct projects.
\<close>

theorem duplicate_lookup_only_within_batch:
  assumes "\<forall>v\<in>set (db_votes d). v_voterSessionId v \<noteq> uuid"
  shows "(processVotes ev req uuid pre (db_votes d) [] = (VotesSubmitted uuid n, store') \<longrightarrow>
            (existingVote store' (r_eventId req) uuid pid = None)
              = (pid \<notin> set (map projectId pre))) \<and>
         (distinct (map projectId (r_votes req)) \<longrightarrow>
            fst (submitVote newDate now uuid d req) \<noteq> VoteAlreadySubmitted name)"
proof (intro conjI impI)
  assume "processVotes ev req uuid pre (db_votes d) [] = (VotesSubmitted uuid n, store')"
  from processVotes_append [OF this, of "[]"]
  have "store' = db_votes d @ map (savedVote req uuid) pre" by simp
  with existingVote_append_fresh [OF assms, of req pre pid]
  show "(existingVote store' (r_eventId req) uuid pid = None) = (pid \<notin> set (map projectId pre))"
    by simp
next
  assume dist: "distinct (map projectId (r_votes req))"
  have "\<forall>v\<in>set (db_votes d). v_event v = r_eventId req \<and> v_voterSessionId v = uuid
          \<longrightarrow> v_project v \<notin> set (map projectId (r_votes req))"
    using assms by blast
  from processVotes_distinct_no_duplicate [OF dist this]
  show "fst (submitVote newDate now uuid d req) \<noteq> VoteAlreadySubmitted name"
    by (simp add: submitVote_def split: option.splits)
qed

theorem duplicate_lookup_only_within_batch_witness:
  "existingVote [savedVote (batch [entry ''p1'' ''g1'' (Some []), entry ''p2'' ''g1'' (Some [])])
                   ''s1'' (entry ''p1'' ''g1'' (Some []))] ''e1'' ''s1'' ''p2'' = None \<and>
   fst (submitVote hourOfDay 12 ''s1'' demoDb
          (batch [entry ''p1'' ''g1'' (Some []), entry ''p2'' ''g1'' (Some [])]))
     \<noteq> VoteAlreadySubmitted ''Alpha''"
  using duplicate_lookup_only_within_batch [where d = demoDb and uuid = "''s1''"
      and ev = demoEvent and pre = "[entry ''p1'' ''g1'' (Some [])]"
      and req = "batch [entry ''p1'' ''g1'' (Some []), entry ''p2'' ''g1'' (Some [])]"
      and n = 1 and pid = "''p2''" and newDate = hourOfDay and now = 12 and name = "''Alpha''"
      and store' = "[savedVote (batch [entry ''p1'' ''g1'' (Some []), entry ''p2'' ''g1'' (Some [])])
                   ''s1'' (entry ''p1'' ''g1'' (Some []))]"]
  by (simp add: intake_defs)

text \<open>
  The check is not dead code: a batch that names a project twice saves the first vote and
  is then answered ``Vote already submitted'' at the second entry, on an empty collection.
\<close>

theorem vote_already_submitted_counterexample:
  "db_votes demoDb = [] \<and>
   submitVote hourOfDay 12 ''s1'' demoDb
     (batch [entry ''p1'' ''g1'' (Some [(''Creativity'', 8)]),
             entry ''p1'' ''g1'' (Some [(''Creativity'', 9)])])
   = (VoteAlreadySubmitted ''Alpha'',
      [\<lparr>v_event = ''e1'', v_project = ''p1'', v_group = ''g1'',
        v_scores = [(''Creativity'', 8)], v_voterSessionId = ''s1'', v_voterName = None\<rparr>])"
  by (simp add: intake_defs)



text \<open>
  Claim C6, as amended. What intake checks of an entry's scores is that it is an object.
  A request holding an entry without one is answered ``Validation errors'' by the route
  and saves nothing; the loop itself never accepts such an entry, and answers ``Scores
  object is required'' once the project, the group and the password have passed. An empty
  object passes: if no vote of the session for the project exists, the entry is accepted
  and its vote carries no score.
\<close>

theorem scores_object_required:
  "(vd \<in> set (r_votes req) \<and> scores vd = None \<longrightarrow>
      submitVote newDate now uuid d req = (ValidationErrors, db_votes d)) \<and>
   (scores vd = None \<longrightarrow> (\<exists>reply. processVote ev req sid vd store = Inl reply)) \<and>
   (find (\<lambda>p. p_id p = projectId vd) (e_projects ev) = Some project
    \<and> find (\<lambda>g. g_id g = groupId vd) (e_groups ev) = Some grp
    \<and> \<not> passwordMismatch grp (r_groupPassword req) \<longrightarrow>
      (scores vd = None \<longrightarrow> processVote ev req sid vd store = Inl ScoresObjectRequired) \<and>
      (scores vd = Some [] \<and> existingVote store (r_eventId req) sid (projectId vd) = None \<longrightarrow>
         processVote ev req sid vd store = Inr (newVote req sid vd [])))"
  by (auto simp: submitVote_def voteValidation_def list_all_iff processVote_def
      split: option.splits)

theorem scores_object_required_witness:
  "submitVote hourOfDay 12 ''s1'' demoDb (batch [entry ''p1'' ''g1'' None])
     = (ValidationErrors, []) \<and>
   processVote demoEvent (batch [entry ''p1'' ''g1'' None]) ''s1'' (entry ''p1'' ''g1'' None) []
     = Inl ScoresObjectRequired \<and>
   processVote demoEvent (batch [entry ''p1'' ''g1'' (Some [])]) ''s1''
       (entry ''p1'' ''g1'' (Some [])) []
     = Inr \<lparr>v_event = ''e1'', v_project = ''p1'', v_group = ''g1'', v_scores = [],
            v_voterSessionId = ''s1'', v_voterName = None\<rparr>"
  using scores_object_required [where vd = "entry ''p1'' ''g1'' None"
      and req = "batch [entry ''p1'' ''g1'' None]" and newDate = hourOfDay and now = 12
      and uuid = "''s1''" and d = demoDb and ev = demoEvent and sid = "''s1''" and store = "[]"
      and project = alpha and grp = judges]
    scores_object_required [where vd = "entry ''p1'' ''g1'' (Some [])"
      and req = "batch [entry ''p1'' ''g1'' (Some [])]" and newDate = hourOfDay and now = 12
      and uuid = "''s1''" and d = demoDb and ev = demoEvent and sid = "''s1''" and store = "[]"
      and project = alpha and grp = judges]
  by (simp add: intake_defs)

text \<open>
  An entry with the empty object for its scores is not rejected: the request succeeds and
  a vote without scores is saved.
\<close>

theorem empty_scores_accepted_counterexample:
  "scores (entry ''p1'' ''g1'' (Some [])) = Some [] \<and>
   submitVote hourOfDay 12 ''s1'' demoDb (batch [entry ''p1'' ''g1'' (Some [])])
     = (VotesSubmitted ''s1'' 1,
        [\<lparr>v_event = ''e1'', v_project = ''p1'', v_group = ''g1'', v_scores = [],
          v_voterSessionId = ''s1'', v_voterName = None\<rparr>])"
  by (simp add: intake_defs)

section \<open>Results aggregation: the tables\<close>

subsection \<open>Objects as entry lists\<close>

lemma update_new: "k \<notin> fst ` set al \<Longrightarrow> AList.update k v al = al @ [(k, v)]"
  by (induction al) auto

lemma fold_update_distinct:
  "distinct (map kf xs) \<Longrightarrow> kf ` set xs \<inter> fst ` set acc = {} \<Longrightarrow>
   fold (\<lambda>x tbl. AList.update (kf x) (vf x) tbl) xs acc = acc @ map (\<lambda>x. (kf x, vf x)) xs"
proof (induction xs arbitrary: acc)
  case Nil
  then show ?case by simp
next
  case (Cons x xs)
  from Cons.prems have new: "kf x \<notin> fst ` set acc" by auto
  have "kf ` set xs \<inter> fst ` set (acc @ [(kf x, vf x)]) = {}"
    using Cons.prems by auto
  with Cons.IH [of "acc @ [(kf x, vf x)]"] Cons.prems new show ?case
    by (simp add: update_new)
qed

lemma fold_update_keys:
  "fst ` set (fold (\<lambda>x tbl. AList.update (kf x) (vf x) tbl) xs acc) = kf ` set xs \<union> fst ` set acc"
  by (induction xs arbitrary: acc) (auto simp: AList.dom_update)

lemma fold_update_lookup:
  "map_of (fold (\<lambda>x tbl. AList.update (kf x) (vf x) tbl) xs acc) n =
     (if n \<in> kf ` set xs then Some (vf (last (filter (\<lambda>x. kf x = n) xs))) else map_of acc n)"
proof (induction xs arbitrary: acc)
  case Nil
  then show ?case by simp
next
  case (Cons x xs)
  show ?case
  proof (cases "n \<in> kf ` set xs")
    case True
    then have "filter (\<lambda>x. kf x = n) xs \<noteq> []" by (auto simp: filter_empty_conv)
    with True Cons.IH [of "AList.update (kf x) (vf x) acc"] show ?thesis by simp
  next
    case False
    then have "filter (\<lambda>x. kf x = n) xs = []" by (auto simp: filter_empty_conv)
    with False Cons.IH [of "AList.update (kf x) (vf x) acc"] show ?thesis
      by (auto simp: AList.update_conv')
  qed
qed

lemma map_entry_keys [simp]: "map fst (AList.map_entry k f xs) = map fst xs"
  by (induction xs) auto

lemma map_entry_static:
  "(\<And>x. h (f x) = h x) \<Longrightarrow>
   map (\<lambda>(k, x). (k, h x)) (AList.map_entry k' f xs) = map (\<lambda>(k, x). (k, h x)) xs"
  by (induction xs) auto

lemma tallyVote_projects_static:
  assumes "\<And>p n cs s. h (p\<lparr>pr_voteCount := n, pr_criteriaScores := cs, pr_totalScore := s\<rparr>) = h p"
  shows "map (\<lambda>(k, p). (k, h p)) (projectResults (tallyVote v t))
           = map (\<lambda>(k, p). (k, h p)) (projectResults t)"
  by (simp add: tallyVote_def map_entry_static assms split: option.splits prod.splits)

lemma tallyVote_groups_static:
  assumes "\<And>g n s. h (g\<lparr>gr_voteCount := n, gr_totalScore := s\<rparr>) = h g"
  shows "map (\<lambda>(k, g). (k, h g)) (groupResults (tallyVote v t))
           = map (\<lambda>(k, g). (k, h g)) (groupResults t)"
  by (simp add: tallyVote_def map_entry_static assms split: option.splits prod.splits)

lemma tallyVote_voters_keys:
  "map fst (groupVoters (tallyVote v t)) = map fst (groupVoters t)"
  by (simp add: tallyVote_def split: option.splits prod.splits)

lemma tallyVote_scores_keys:
  "map (\<lambda>(k, row). (k, map fst row)) (projectGroupScores (tallyVote v t))
     = map (\<lambda>(k, row). (k, map fst row)) (projectGroupScores t)"
  by (simp add: tallyVote_def map_entry_static split: option.splits prod.splits)

lemma fold_tallyVote_projects_static:
  assumes "\<And>p n cs s. h (p\<lparr>pr_voteCount := n, pr_criteriaScores := cs, pr_totalScore := s\<rparr>) = h p"
  shows "map (\<lambda>(k, p). (k, h p)) (projectResults (fold tallyVote votes t))
           = map (\<lambda>(k, p). (k, h p)) (projectResults t)"
  by (induction votes arbitrary: t) (simp_all add: tallyVote_projects_static assms)

lemma fold_tallyVote_groups_static:
  assumes "\<And>g n s. h (g\<lparr>gr_voteCount := n, gr_totalScore := s\<rparr>) = h g"
  shows "map (\<lambda>(k, g). (k, h g)) (groupResults (fold tallyVote votes t))
           = map (\<lambda>(k, g). (k, h g)) (groupResults t)"
  by (induction votes arbitrary: t) (simp_all add: tallyVote_groups_static assms)

lemma fold_tallyVote_voters_keys:
  "map fst (groupVoters (fold tallyVote votes t)) = map fst (groupVoters t)"
  by (induction votes arbitrary: t) (simp_all add: tallyVote_voters_keys)

lemma fold_tallyVote_scores_keys:
  "map (\<lambda>(k, row). (k, map fst row)) (projectGroupScores (fold tallyVote votes t))
     = map (\<lambda>(k, row). (k, map fst row)) (projectGroupScores t)"
  by (induction votes arbitrary: t) (simp_all add: tallyVote_scores_keys)

subsection \<open>The group table and the weighted totals\<close>

lemma initGroupResults_distinct:
  "distinct (map g_id (e_groups ev)) \<Longrightarrow>
   initGroupResults gw ev = map (\<lambda>g. (g_id g, initialGroup gw g)) (e_groups ev)"
  by (simp add: initGroupResults_def fold_update_distinct)

lemma initProjectResults_distinct:
  "distinct (map p_id (e_projects ev)) \<Longrightarrow>
   initProjectResults ev = map (\<lambda>p. (p_id p, initialProject p)) (e_projects ev)"
  by (simp add: initProjectResults_def fold_update_distinct)

lemma groupIdToName_distinct:
  "distinct (map g_id (e_groups ev)) \<Longrightarrow>
   groupIdToName ev = map (\<lambda>g. (g_id g, g_name g)) (e_groups ev)"
  by (simp add: groupIdToName_def fold_update_distinct)

lemma setVoterCounts_static:
  assumes "\<And>g n. h (g\<lparr>gr_voterCount := n\<rparr>) = h g"
  shows "map (\<lambda>(k, g). (k, h g)) (setVoterCounts t) = map (\<lambda>(k, g). (k, h g)) (groupResults t)"
  by (simp add: setVoterCounts_def assms case_prod_unfold)

lemma finalGroups_static:
  assumes "\<And>g n s. h (g\<lparr>gr_voteCount := n, gr_totalScore := s\<rparr>) = h g"
    and "\<And>g n. h (g\<lparr>gr_voterCount := n\<rparr>) = h g"
  shows "map (\<lambda>(k, g). (k, h g)) (finalGroups ev votes gw)
           = map (\<lambda>(k, g). (k, h g)) (initGroupResults gw ev)"
  by (simp add: finalGroups_def tallied_def setVoterCounts_static [of h, OF assms(2)]
      fold_tallyVote_groups_static [of h, OF assms(1)] initTally_def Let_def)

lemma finalGroups_names_weights:
  assumes "distinct (map g_id (e_groups ev))"
  shows "map (\<lambda>(k, g). (k, gr_id g, gr_name g, gr_weight g)) (finalGroups ev votes gw)
           = map (\<lambda>g. (g_id g, g_id g, g_name g, effectiveWeight gw g)) (e_groups ev)"
  by (simp add: finalGroups_static [of "\<lambda>g. (gr_id g, gr_name g, gr_weight g)"]
      initGroupResults_distinct [OF assms] initialGroup_def comp_def)

lemma weightedTotals_sums:
  "weightedTotals grs p =
     (sum_list (map (\<lambda>(k, g). groupAverageOf p (gr_name g) * gr_weight g) grs),
      sum_list (map (\<lambda>(k, g). gr_weight g) grs))"
proof -
  have "fold (\<lambda>(gid, g) (weightedSum, totalWeight).
             (weightedSum + groupAverageOf p (gr_name g) * gr_weight g,
              totalWeight + gr_weight g)) grs (a, b)
        = (a + sum_list (map (\<lambda>(k, g). groupAverageOf p (gr_name g) * gr_weight g) grs),
           b + sum_list (map (\<lambda>(k, g). gr_weight g) grs))" for a b
    by (induction grs arbitrary: a b) (auto simp: algebra_simps)
  from this [of 0 0] show ?thesis by (simp add: weightedTotals_def)
qed

lemma sum_over_groups:
  assumes "map (\<lambda>(k, g). (k, gr_id g, gr_name g, gr_weight g)) grs
           = map (\<lambda>g. (g_id g, g_id g, g_name g, w g)) gs"
  shows "sum_list (map (\<lambda>(k, g). F (gr_name g) (gr_weight g)) grs)
           = sum_list (map (\<lambda>g. F (g_name g) (w g)) gs)"
proof -
  have "map (\<lambda>(k, g). F (gr_name g) (gr_weight g)) grs
        = map (\<lambda>(k, i, n, x). F n x) (map (\<lambda>(k, g). (k, gr_id g, gr_name g, gr_weight g)) grs)"
    by (simp add: case_prod_unfold comp_def)
  also have "\<dots> = map (\<lambda>g. F (g_name g) (w g)) gs"
    by (simp add: assms comp_def)
  finally show ?thesis by simp
qed

lemma rankProjects_member:
  "r \<in> set (rankProjects ps) \<Longrightarrow> \<exists>p\<in>set ps. \<exists>n. r = p\<lparr>pr_rank := n\<rparr>"
  by (auto simp: rankProjects_def in_set_enumerate_eq)

lemma res_projects_member:
  assumes "r \<in> set (res_projects (calculateResults ev votes gw))"
  shows "\<exists>e\<in>set (finalProjects ev votes gw). \<exists>n. r = (snd e)\<lparr>pr_rank := n\<rparr>"
proof -
  from assms have "r \<in> set (rankProjects (sortDescending pr_finalScore
      (map snd (finalProjects ev votes gw))))"
    by (simp add: calculateResults_def)
  from rankProjects_member [OF this] obtain p n
    where "p \<in> snd ` set (finalProjects ev votes gw)" and "r = p\<lparr>pr_rank := n\<rparr>"
    by (auto simp: sortDescending_def)
  then show ?thesis by blast
qed

lemma groupAverageOf_cong:
  "pr_groupAverages p = pr_groupAverages q \<Longrightarrow> groupAverageOf p = groupAverageOf q"
  by (auto simp: groupAverageOf_def)

lemma weightedTotals_cong:
  "pr_groupAverages p = pr_groupAverages q \<Longrightarrow> weightedTotals grs p = weightedTotals grs q"
  by (simp add: weightedTotals_sums groupAverageOf_cong [of p q])

lemma finalProjects_finalScore:
  assumes "e \<in> set (finalProjects ev votes gw)"
  shows "pr_finalScore (snd e) =
     (case weightedTotals (finalGroups ev votes gw) (snd e) of
        (weightedSum, totalWeight) \<Rightarrow> if totalWeight > 0 then weightedSum / totalWeight else 0)"
proof -
  let ?grs = "finalGroups ev votes gw"
  from assms have "e \<in> setFinalScore ?grs `
      set (map (setAverages (groupIdToName ev) (projectGroupScores (tallied ev votes gw))
                 (map fst ?grs)) (projectResults (tallied ev votes gw)))"
    by (simp only: finalProjects_def Let_def set_map)
  then obtain x where "e = setFinalScore ?grs x" by blast
  then obtain k p where e: "e = setFinalScore ?grs (k, p)" by (cases x) simp
  obtain ws tw where w: "weightedTotals ?grs p = (ws, tw)" by (cases "weightedTotals ?grs p")
  have "pr_groupAverages (snd e) = pr_groupAverages p"
    using e w by (simp add: setFinalScore_def)
  from weightedTotals_cong [OF this] w e show ?thesis
    by (simp add: setFinalScore_def)
qed

lemma res_projects_finalScore:
  assumes "r \<in> set (res_projects (calculateResults ev votes gw))"
  shows "pr_finalScore r =
     (case weightedTotals (finalGroups ev votes gw) r of
        (weightedSum, totalWeight) \<Rightarrow> if totalWeight > 0 then weightedSum / totalWeight else 0)"
proof -
  from res_projects_member [OF assms] obtain e n
    where e: "e \<in> set (finalProjects ev votes gw)" and r: "r = (snd e)\<lparr>pr_rank := n\<rparr>" by blast
  have "weightedTotals (finalGroups ev votes gw) r = weightedTotals (finalGroups ev votes gw) (snd e)"
    by (rule weightedTotals_cong) (simp add: r)
  with finalProjects_finalScore [OF e] r show ?thesis by simp
qed

lemma weightedTotals_event:
  assumes "distinct (map g_id (e_groups ev))"
  shows "weightedTotals (finalGroups ev votes gw) r =
     (\<Sum>g\<leftarrow>e_groups ev. groupAverageOf r (g_name g) * effectiveWeight gw g,
      \<Sum>g\<leftarrow>e_groups ev. effectiveWeight gw g)"
  using sum_over_groups [OF finalGroups_names_weights [OF assms, of votes gw],
      of "\<lambda>n w. groupAverageOf r n * w"]
    sum_over_groups [OF finalGroups_names_weights [OF assms, of votes gw], of "\<lambda>n w. w"]
  by (simp add: weightedTotals_sums)


lemma beta_results:
  "map pr_id (res_projects (calculateResults demoEvent betaVotes None)) = [''p2'', ''p1''] \<and>
   map pr_finalScore (res_projects (calculateResults demoEvent betaVotes None)) = [3, 0] \<and>
   map pr_rank (res_projects (calculateResults demoEvent betaVotes None)) = [1, 2] \<and>
   map gr_id (res_groups (calculateResults demoEvent betaVotes None)) = [''g2'', ''g1''] \<and>
   map gr_totalScore (res_groups (calculateResults demoEvent betaVotes None)) = [10, 0] \<and>
   map gr_rank (res_groups (calculateResults demoEvent betaVotes None)) = [1, 2]"
  by (simp add: aggregate_defs betaVotes_def scored_def demo_defs Let_def enumerate_eq_zip)

lemma empty_results:
  "map pr_id (res_projects (calculateResults demoEvent [] None)) = [''p1'', ''p2''] \<and>
   map pr_finalScore (res_projects (calculateResults demoEvent [] None)) = [0, 0] \<and>
   map pr_rank (res_projects (calculateResults demoEvent [] None)) = [1, 2] \<and>
   map gr_id (res_groups (calculateResults demoEvent [] None)) = [''g1'', ''g2''] \<and>
   map gr_rank (res_groups (calculateResults demoEvent [] None)) = [1, 2]"
  by (simp add: aggregate_defs demo_defs Let_def enumerate_eq_zip)

lemma twin_results:
  "map pr_id (res_projects (calculateResults twinEvent demoVotes None)) = [''p1'', ''p2''] \<and>
   map pr_groupAverages (res_projects (calculateResults twinEvent demoVotes None))
     = [[(''Judges'', 4)], [(''Judges'', 0)]] \<and>
   map pr_finalScore (res_projects (calculateResults twinEvent demoVotes None)) = [4, 0]"
  by (simp add: aggregate_defs twinEvent_def demoVotes_def scored_def demo_defs Let_def
      enumerate_eq_zip)


section \<open>Ranking\<close>

lemma fold_update_entries:
  "(k, v) \<in> set (fold (\<lambda>x tbl. AList.update (kf x) (vf x) tbl) xs acc) \<Longrightarrow>
   (k, v) \<in> set acc \<or> (\<exists>x\<in>set xs. k = kf x \<and> v = vf x)"
proof (induction xs arbitrary: acc)
  case Nil
  then show ?case by simp
next
  case (Cons x xs)
  from Cons.IH [of "AList.update (kf x) (vf x) acc"] Cons.prems
  have "(k, v) \<in> set (AList.update (kf x) (vf x) acc) \<or> (\<exists>x\<in>set xs. k = kf x \<and> v = vf x)"
    by simp
  moreover have "set (AList.update (kf x) (vf x) acc) \<subseteq> insert (kf x, vf x) (set acc)"
    by (induction acc) auto
  ultimately show ?case by auto
qed

lemma setAverages_static:
  assumes "\<And>p a cs ga. h (p\<lparr>pr_averageScore := a, pr_criteriaScores := cs\<rparr>) = h p"
    and "\<And>p ga. h (p\<lparr>pr_groupAverages := ga\<rparr>) = h p"
  shows "(\<lambda>(k, p). (k, h p)) (setAverages names pgs gids e) = (\<lambda>(k, p). (k, h p)) e"
  by (cases e) (simp add: setAverages_def Let_def assms)

lemma setFinalScore_static:
  assumes "\<And>p s. h (p\<lparr>pr_finalScore := s\<rparr>) = h p"
  shows "(\<lambda>(k, p). (k, h p)) (setFinalScore grs e) = (\<lambda>(k, p). (k, h p)) e"
  by (cases e) (simp add: setFinalScore_def assms split: prod.splits)

lemma finalProjects_static:
  assumes "\<And>p n cs s. h (p\<lparr>pr_voteCount := n, pr_criteriaScores := cs, pr_totalScore := s\<rparr>) = h p"
    and "\<And>p a cs ga. h (p\<lparr>pr_averageScore := a, pr_criteriaScores := cs\<rparr>) = h p"
    and "\<And>p ga. h (p\<lparr>pr_groupAverages := ga\<rparr>) = h p"
    and "\<And>p s. h (p\<lparr>pr_finalScore := s\<rparr>) = h p"
  shows "map (\<lambda>(k, p). (k, h p)) (finalProjects ev votes gw)
           = map (\<lambda>(k, p). (k, h p)) (initProjectResults ev)"
proof -
  have "map (\<lambda>(k, p). (k, h p)) (finalProjects ev votes gw)
        = map (\<lambda>(k, p). (k, h p)) (projectResults (tallied ev votes gw))"
    by (simp add: finalProjects_def Let_def comp_def
        setFinalScore_static [of h, OF assms(4)] setAverages_static [of h, OF assms(2,3)])
  also have "\<dots> = map (\<lambda>(k, p). (k, h p)) (initProjectResults ev)"
    by (simp add: tallied_def fold_tallyVote_projects_static [of h, OF assms(1)]
        initTally_def Let_def)
  finally show ?thesis .
qed

lemma finalProjects_ids:
  assumes "distinct (map p_id (e_projects ev))"
  shows "map pr_id (map snd (finalProjects ev votes gw)) = map p_id (e_projects ev)"
proof -
  have "map pr_id (map snd (finalProjects ev votes gw))
        = map snd (map (\<lambda>(k, p). (k, pr_id p)) (finalProjects ev votes gw))"
    by (simp add: comp_def case_prod_unfold)
  also have "\<dots> = map p_id (e_projects ev)"
    by (simp add: finalProjects_static [of pr_id] initProjectResults_distinct [OF assms]
        comp_def initialProject_def)
  finally show ?thesis .
qed

lemma finalGroups_ids:
  assumes "distinct (map g_id (e_groups ev))"
  shows "map gr_id (map snd (finalGroups ev votes gw)) = map g_id (e_groups ev)"
proof -
  have "map gr_id (map snd (finalGroups ev votes gw))
        = map (\<lambda>(k, i, n, w). i)
            (map (\<lambda>(k, g). (k, gr_id g, gr_name g, gr_weight g)) (finalGroups ev votes gw))"
    by (simp add: comp_def case_prod_unfold)
  also have "\<dots> = map g_id (e_groups ev)"
    by (simp add: finalGroups_names_weights [OF assms] comp_def)
  finally show ?thesis .
qed

lemma rankProjects_nth:
  "i < length ps \<Longrightarrow> rankProjects ps ! i = (ps ! i)\<lparr>pr_rank := i + 1\<rparr>"
  by (simp add: rankProjects_def nth_enumerate_eq)


lemma rankGroups_nth:
  "i < length gs \<Longrightarrow> rankGroups gs ! i = (gs ! i)\<lparr>gr_rank := i + 1\<rparr>"
  by (simp add: rankGroups_def nth_enumerate_eq)


lemma rankProjects_length [simp]: "length (rankProjects ps) = length ps"
  by (simp add: rankProjects_def)


lemma rankGroups_length [simp]: "length (rankGroups gs) = length gs"
  by (simp add: rankGroups_def)


lemma rankProjects_map:
  assumes "\<And>p n. h (p\<lparr>pr_rank := n\<rparr>) = h p"
  shows "map h (rankProjects ps) = map h ps"
  by (rule nth_equalityI) (simp_all add: rankProjects_nth assms)


lemma rankGroups_map:
  assumes "\<And>g n. h (g\<lparr>gr_rank := n\<rparr>) = h g"
  shows "map h (rankGroups gs) = map h gs"
  by (rule nth_equalityI) (simp_all add: rankGroups_nth assms)


lemma sortDescending_sorted:
  "sorted_wrt (\<lambda>a b. b \<le> a) (map key (sortDescending key xs))"
proof -
  have "sorted (map (\<lambda>x. - key x) (sortDescending key xs))"
    by (simp add: sortDescending_def)
  then show ?thesis by (simp add: sorted_wrt_map sorted_map)
qed


lemma sortDescending_stable:
  "filter (\<lambda>x. key x = s) (sortDescending key xs) = filter (\<lambda>x. key x = s) xs"
  using sort_key_stable [of "\<lambda>x. - key x" "- s" xs] by (simp add: sortDescending_def)


lemma filter_by_key_map:
  "map f (filter (\<lambda>x. key x = s) xs)
     = map fst (filter (\<lambda>p. snd p = s) (map (\<lambda>x. (f x, key x)) xs))"
  by (induction xs) auto


lemma ranked_ties_subseq:
  assumes "map (\<lambda>x. (f x, key x)) ys = map (\<lambda>x. (f x, key x)) (sortDescending key xs)"
  shows "subseq (map f (filter (\<lambda>x. key x = s) ys)) (map f xs)"
proof -
  have "map f (filter (\<lambda>x. key x = s) ys)
        = map fst (filter (\<lambda>p. snd p = s) (map (\<lambda>x. (f x, key x)) ys))"
    by (rule filter_by_key_map)
  also have "\<dots> = map fst (filter (\<lambda>p. snd p = s)
        (map (\<lambda>x. (f x, key x)) (sortDescending key xs)))"
    by (simp only: assms)
  also have "\<dots> = map f (filter (\<lambda>x. key x = s) (sortDescending key xs))"
    by (rule filter_by_key_map [symmetric])
  also have "\<dots> = map f (filter (\<lambda>x. key x = s) xs)"
    by (simp only: sortDescending_stable)
  finally show ?thesis by (simp add: subseq_map)
qed

lemma res_projects_ranked:
  "res_projects (calculateResults ev votes gw)
     = rankProjects (sortDescending pr_finalScore (map snd (finalProjects ev votes gw)))"
  by (simp add: calculateResults_def)

lemma res_groups_ranked:
  "res_groups (calculateResults ev votes gw)
     = rankGroups (sortDescending gr_totalScore (map snd (finalGroups ev votes gw)))"
  by (simp add: calculateResults_def)

lemma sortDescending_length [simp]: "length (sortDescending key xs) = length xs"
  by (simp add: sortDescending_def)

lemma sortDescending_set [simp]: "set (sortDescending key xs) = set xs"
  by (simp add: sortDescending_def)

lemma projects_sorted:
  "sorted_wrt (\<lambda>a b. pr_finalScore b \<le> pr_finalScore a)
     (res_projects (calculateResults ev votes gw))"
proof -
  have "sorted_wrt (\<lambda>a b. b \<le> a) (map pr_finalScore (res_projects (calculateResults ev votes gw)))"
    by (simp only: res_projects_ranked rankProjects_map [of pr_finalScore, simplified]
        sortDescending_sorted)
  then show ?thesis by (simp add: sorted_wrt_map)
qed

lemma groups_sorted:
  "sorted_wrt (\<lambda>a b. gr_totalScore b \<le> gr_totalScore a)
     (res_groups (calculateResults ev votes gw))"
proof -
  have "sorted_wrt (\<lambda>a b. b \<le> a) (map gr_totalScore (res_groups (calculateResults ev votes gw)))"
    by (simp only: res_groups_ranked rankGroups_map [of gr_totalScore, simplified]
        sortDescending_sorted)
  then show ?thesis by (simp add: sorted_wrt_map)
qed

lemma projects_ties:
  assumes "distinct (map p_id (e_projects ev))"
  shows "subseq (map pr_id (filter (\<lambda>r. pr_finalScore r = s)
            (res_projects (calculateResults ev votes gw)))) (map p_id (e_projects ev))"
proof -
  have "map (\<lambda>x. (pr_id x, pr_finalScore x)) (res_projects (calculateResults ev votes gw))
        = map (\<lambda>x. (pr_id x, pr_finalScore x))
            (sortDescending pr_finalScore (map snd (finalProjects ev votes gw)))"
    by (simp only: res_projects_ranked
        rankProjects_map [of "\<lambda>x. (pr_id x, pr_finalScore x)", simplified])
  from ranked_ties_subseq [OF this, of s] finalProjects_ids [OF assms, of votes gw]
  show ?thesis by simp
qed

lemma groups_ties:
  assumes "distinct (map g_id (e_groups ev))"
  shows "subseq (map gr_id (filter (\<lambda>g. gr_totalScore g = s)
            (res_groups (calculateResults ev votes gw)))) (map g_id (e_groups ev))"
proof -
  have "map (\<lambda>x. (gr_id x, gr_totalScore x)) (res_groups (calculateResults ev votes gw))
        = map (\<lambda>x. (gr_id x, gr_totalScore x))
            (sortDescending gr_totalScore (map snd (finalGroups ev votes gw)))"
    by (simp only: res_groups_ranked
        rankGroups_map [of "\<lambda>x. (gr_id x, gr_totalScore x)", simplified])
  from ranked_ties_subseq [OF this, of s] finalGroups_ids [OF assms, of votes gw]
  show ?thesis by simp
qed

lemma projects_all_ranked:
  assumes "distinct (map p_id (e_projects ev))"
  shows "length (res_projects (calculateResults ev votes gw)) = length (e_projects ev)"
    and "set (map pr_id (res_projects (calculateResults ev votes gw))) = set (map p_id (e_projects ev))"
proof -
  have "length (res_projects (calculateResults ev votes gw))
        = length (map pr_id (map snd (finalProjects ev votes gw)))"
    by (simp add: res_projects_ranked)
  then show "length (res_projects (calculateResults ev votes gw)) = length (e_projects ev)"
    by (simp only: finalProjects_ids [OF assms] length_map)
  have "set (map pr_id (res_projects (calculateResults ev votes gw)))
        = set (map pr_id (map snd (finalProjects ev votes gw)))"
    by (simp only: res_projects_ranked rankProjects_map [of pr_id, simplified])
       (simp only: set_map sortDescending_set)
  then show "set (map pr_id (res_projects (calculateResults ev votes gw))) = set (map p_id (e_projects ev))"
    by (simp only: finalProjects_ids [OF assms])
qed

lemma groups_all_ranked:
  assumes "distinct (map g_id (e_groups ev))"
  shows "length (res_groups (calculateResults ev votes gw)) = length (e_groups ev)"
    and "set (map gr_id (res_groups (calculateResults ev votes gw))) = set (map g_id (e_groups ev))"
proof -
  have "length (res_groups (calculateResults ev votes gw))
        = length (map gr_id (map snd (finalGroups ev votes gw)))"
    by (simp add: res_groups_ranked)
  then show "length (res_groups (calculateResults ev votes gw)) = length (e_groups ev)"
    by (simp only: finalGroups_ids [OF assms] length_map)
  have "set (map gr_id (res_groups (calculateResults ev votes gw)))
        = set (map gr_id (map snd (finalGroups ev votes gw)))"
    by (simp only: res_groups_ranked rankGroups_map [of gr_id, simplified])
       (simp only: set_map sortDescending_set)
  then show "set (map gr_id (res_groups (calculateResults ev votes gw))) = set (map g_id (e_groups ev))"
    by (simp only: finalGroups_ids [OF assms])
qed

lemma projects_rank:
  "i < length (res_projects (calculateResults ev votes gw)) \<Longrightarrow>
   pr_rank (res_projects (calculateResults ev votes gw) ! i) = i + 1"
  by (simp add: res_projects_ranked rankProjects_nth)

lemma groups_rank:
  "i < length (res_groups (calculateResults ev votes gw)) \<Longrightarrow>
   gr_rank (res_groups (calculateResults ev votes gw) ! i) = i + 1"
  by (simp add: res_groups_ranked rankGroups_nth)

text \<open>
  Claim C7. The projects of the results are in descending order of final score and the
  groups in descending order of total score, and the rank of each record is its position
  counted from 1. When the ids of the event's projects (groups) are distinct, every project
  (group) has its record, and the records that tie on a score stand in the order of the
  event's list: their ids, in the order of the results, form a subsequence of the ids of
  the event's list.
\<close>

theorem results_sorted_stable_ranked:
  "sorted_wrt (\<lambda>a b. pr_finalScore b \<le> pr_finalScore a)
     (res_projects (calculateResults ev votes gw)) \<and>
   sorted_wrt (\<lambda>a b. gr_totalScore b \<le> gr_totalScore a)
     (res_groups (calculateResults ev votes gw)) \<and>
   (\<forall>i<length (res_projects (calculateResults ev votes gw)).
      pr_rank (res_projects (calculateResults ev votes gw) ! i) = i + 1) \<and>
   (\<forall>i<length (res_groups (calculateResults ev votes gw)).
      gr_rank (res_groups (calculateResults ev votes gw) ! i) = i + 1) \<and>
   (distinct (map p_id (e_projects ev)) \<longrightarrow>
      length (res_projects (calculateResults ev votes gw)) = length (e_projects ev) \<and>
      set (map pr_id (res_projects (calculateResults ev votes gw))) = set (map p_id (e_projects ev)) \<and>
      (\<forall>s. subseq (map pr_id (filter (\<lambda>r. pr_finalScore r = s)
                      (res_projects (calculateResults ev votes gw))))
                  (map p_id (e_projects ev)))) \<and>
   (distinct (map g_id (e_groups ev)) \<longrightarrow>
      length (res_groups (calculateResults ev votes gw)) = length (e_groups ev) \<and>
      set (map gr_id (res_groups (calculateResults ev votes gw))) = set (map g_id (e_groups ev)) \<and>
      (\<forall>s. subseq (map gr_id (filter (\<lambda>g. gr_totalScore g = s)
                      (res_groups (calculateResults ev votes gw))))
                  (map g_id (e_groups ev))))"
  using projects_sorted [of ev votes gw] groups_sorted [of ev votes gw]
    projects_rank [of _ ev votes gw] groups_rank [of _ ev votes gw]
    projects_ties [of ev _ votes gw] groups_ties [of ev _ votes gw]
    projects_all_ranked [of ev votes gw] groups_all_ranked [of ev votes gw]
  by blast

text \<open>
  A vote for Beta puts Beta before Alpha and Public before Judges; without votes the two
  projects tie at 0 and keep the order of the event.
\<close>

theorem results_sorted_stable_ranked_witness:
  "map pr_id (res_projects (calculateResults demoEvent betaVotes None)) = [''p2'', ''p1''] \<and>
   map pr_finalScore (res_projects (calculateResults demoEvent betaVotes None)) = [3, 0] \<and>
   map pr_rank (res_projects (calculateResults demoEvent betaVotes None)) = [1, 2] \<and>
   map gr_id (res_groups (calculateResults demoEvent betaVotes None)) = [''g2'', ''g1''] \<and>
   map pr_id (res_projects (calculateResults demoEvent [] None)) = [''p1'', ''p2''] \<and>
   map pr_finalScore (res_projects (calculateResults demoEvent [] None)) = [0, 0]"
proof -
  have "distinct (map p_id (e_projects demoEvent))" and "distinct (map g_id (e_groups demoEvent))"
    by (simp_all add: demo_defs)
  with results_sorted_stable_ranked [of demoEvent betaVotes None]
    results_sorted_stable_ranked [of demoEvent "[]" None]
  show ?thesis by (simp add: beta_results empty_results)
qed

section \<open>An event without votes\<close>



lemma initProjectResults_entries:
  "(k, p) \<in> set (initProjectResults ev) \<Longrightarrow> \<exists>x\<in>set (e_projects ev). k = p_id x \<and> p = initialProject x"
  using fold_update_entries [of k p p_id initialProject "e_projects ev" "[]"]
  by (auto simp: initProjectResults_def)











lemma getPublicResults_reply:
  assumes "findById (db_events d) eventId = Some ev" and "e_isActive ev"
    and "weights \<noteq> MalformedWeights"
  shows "getPublicResults d eventId weights
           = ResultsOk (resultsReplyData ev (votesOfEvent d eventId) (groupWeightsOf weights))"
  using assms by (simp add: getPublicResults_def)

lemma getResults_reply:
  assumes "findById (db_events d) eventId = Some ev" and "e_owner ev = userId"
  shows "getResults d eventId userId = ResultsOk (resultsReplyData ev (votesOfEvent d eventId) None)"
  using assms by (simp add: getResults_def)





section \<open>Votes for a project or group that the event does not list\<close>

lemma tallyVote_project_keys:
  "map fst (projectResults (tallyVote v t)) = map fst (projectResults t)"
  by (simp add: tallyVote_def split: option.splits prod.splits)

lemma tallyVote_group_keys:
  "map fst (groupResults (tallyVote v t)) = map fst (groupResults t)"
  by (simp add: tallyVote_def split: option.splits prod.splits)

lemma map_of_None_keys: "(map_of xs k = None) = (k \<notin> set (map fst xs))"
  by (simp add: map_of_eq_None_iff)


lemma tallyVote_not_counted:
  assumes "\<not> counted t v"
  shows "tallyVote v t = t"
proof -
  from assms have "map_of (projectResults t) (v_project v) = None
      \<or> map_of (groupResults t) (v_group v) = None"
    by (auto simp: counted_def map_of_eq_None_iff)
  then show ?thesis
    by (auto simp: tallyVote_def split: option.splits)
qed

lemma counted_tallyVote: "counted (tallyVote v t) = counted t"
  by (simp add: counted_def fun_eq_iff tallyVote_project_keys tallyVote_group_keys)

lemma fold_tallyVote_filter:
  "fold tallyVote votes t = fold tallyVote (filter (counted t) votes) t"
proof (induction votes arbitrary: t)
  case Nil
  then show ?case by simp
next
  case (Cons v votes)
  show ?case
  proof (cases "counted t v")
    case True
    with Cons.IH [of "tallyVote v t"] show ?thesis by (simp add: counted_tallyVote)
  next
    case False
    with Cons.IH [of t] show ?thesis by (simp add: tallyVote_not_counted)
  qed
qed

lemma counted_initTally:
  "counted (initTally ev gw) v \<longleftrightarrow>
     v_project v \<in> set (map p_id (e_projects ev)) \<and> v_group v \<in> set (map g_id (e_groups ev))"
  by (simp add: counted_def initTally_def Let_def initProjectResults_def initGroupResults_def
      fold_update_keys)

lemma tallied_filter:
  "tallied ev votes gw =
     tallied ev (filter (\<lambda>v. v_project v \<in> set (map p_id (e_projects ev))
                           \<and> v_group v \<in> set (map g_id (e_groups ev))) votes) gw"
  using fold_tallyVote_filter [of votes "initTally ev gw"]
  by (simp add: tallied_def counted_initTally [abs_def])

lemma calculateResults_tallied:
  "tallied ev votes gw = tallied ev votes' gw \<Longrightarrow>
   calculateResults ev votes gw = calculateResults ev votes' gw"
  by (simp add: calculateResults_def finalProjects_def finalGroups_def)

lemma orphan_vote_dropped:
  assumes "v_project v \<notin> set (map p_id (e_projects ev)) \<or> v_group v \<notin> set (map g_id (e_groups ev))"
  shows "calculateResults ev (before @ v # after) gw = calculateResults ev (before @ after) gw"
proof -
  let ?known = "\<lambda>v. v_project v \<in> set (map p_id (e_projects ev))
                           \<and> v_group v \<in> set (map g_id (e_groups ev))"
  have "filter ?known (before @ v # after) = filter ?known (before @ after)"
    using assms by auto
  then have "tallied ev (before @ v # after) gw = tallied ev (before @ after) gw"
    using tallied_filter [of ev "before @ v # after" gw] tallied_filter [of ev "before @ after" gw]
    by simp
  then show ?thesis by (rule calculateResults_tallied)
qed

text \<open>
  Claim C9. A vote whose project id is not among the event's projects, or whose group id
  is not among its groups, changes nothing in the aggregated results, wherever it stands
  among the votes of the event; both results endpoints answer with the results computed
  without it, and still count it in \<^verbatim>\<open>totalVotes\<close> and its session id among the
  \<^verbatim>\<open>totalVoters\<close>.
\<close>

theorem orphan_votes_not_aggregated_but_counted:
  assumes "v_project v \<notin> set (map p_id (e_projects ev)) \<or> v_group v \<notin> set (map g_id (e_groups ev))"
    and "findById (db_events d) eventId = Some ev"
    and "votesOfEvent d eventId = before @ v # after"
  shows "calculateResults ev (before @ v # after) gw = calculateResults ev (before @ after) gw \<and>
         (e_owner ev = userId \<longrightarrow>
            (\<exists>dat. getResults d eventId userId = ResultsOk dat \<and>
               rd_results dat = calculateResults ev (before @ after) None \<and>
               rd_totalVotes dat = length (before @ after) + 1 \<and>
               rd_totalVoters dat
                 = card (insert (v_voterSessionId v) (v_voterSessionId ` set (before @ after))))) \<and>
         (e_isActive ev \<and> weights \<noteq> MalformedWeights \<longrightarrow>
            (\<exists>dat. getPublicResults d eventId weights = ResultsOk dat \<and>
               rd_results dat = calculateResults ev (before @ after) (groupWeightsOf weights) \<and>
               rd_totalVotes dat = length (before @ after) + 1 \<and>
               rd_totalVoters dat
                 = card (insert (v_voterSessionId v) (v_voterSessionId ` set (before @ after)))))"
proof (intro conjI impI)
  show "calculateResults ev (before @ v # after) gw = calculateResults ev (before @ after) gw"
    by (rule orphan_vote_dropped [OF assms(1)])
next
  assume "e_owner ev = userId"
  from getResults_reply [OF assms(2) this] orphan_vote_dropped [OF assms(1), of before after None]
  show "\<exists>dat. getResults d eventId userId = ResultsOk dat \<and>
               rd_results dat = calculateResults ev (before @ after) None \<and>
               rd_totalVotes dat = length (before @ after) + 1 \<and>
               rd_totalVoters dat
                 = card (insert (v_voterSessionId v) (v_voterSessionId ` set (before @ after)))"
    by (simp add: assms(3) resultsReplyData_def image_Un)
next
  assume "e_isActive ev \<and> weights \<noteq> MalformedWeights"
  with getPublicResults_reply [OF assms(2), of weights]
    orphan_vote_dropped [OF assms(1), of before after "groupWeightsOf weights"]
  show "\<exists>dat. getPublicResults d eventId weights = ResultsOk dat \<and>
               rd_results dat = calculateResults ev (before @ after) (groupWeightsOf weights) \<and>
               rd_totalVotes dat = length (before @ after) + 1 \<and>
               rd_totalVoters dat
                 = card (insert (v_voterSessionId v) (v_voterSessionId ` set (before @ after)))"
    by (simp add: assms(3) resultsReplyData_def image_Un)
qed

text \<open>
  With the vote for the unlisted project ``p9'' in the collection, both endpoints report
  three votes and three voters, and the results of the two other votes.
\<close>

theorem orphan_votes_not_aggregated_but_counted_witness:
  "getResults orphanDb ''e1'' ''u1''
     = ResultsOk \<lparr>rd_eventId = ''e1'', rd_eventName = ''Demo'',
                  rd_results = calculateResults demoEvent demoVotes None,
                  rd_totalVotes = 3, rd_totalVoters = 3\<rparr> \<and>
   getPublicResults orphanDb ''e1'' NoWeights
     = ResultsOk \<lparr>rd_eventId = ''e1'', rd_eventName = ''Demo'',
                  rd_results = calculateResults demoEvent demoVotes None,
                  rd_totalVotes = 3, rd_totalVoters = 3\<rparr>"
proof -
  have o: "v_project orphanVote \<notin> set (map p_id (e_projects demoEvent))
      \<or> v_group orphanVote \<notin> set (map g_id (e_groups demoEvent))"
    by (simp add: orphanVote_def scored_def demo_defs)
  have f: "findById (db_events orphanDb) ''e1'' = Some demoEvent"
    by (simp add: findById_def orphanDb_def demoEvent_def)
  have v: "votesOfEvent orphanDb ''e1'' = demoVotes @ orphanVote # []"
    by (simp add: votesOfEvent_def orphanDb_def demoVotes_def orphanVote_def scored_def)
  have a: "e_owner demoEvent = ''u1''" "e_isActive demoEvent"
    "e_id demoEvent = ''e1''" "e_name demoEvent = ''Demo''"
    by (simp_all add: demoEvent_def)
  have c: "card (insert (v_voterSessionId orphanVote) (v_voterSessionId ` set demoVotes)) = 3"
    "length demoVotes = 2"
    by (simp_all add: demoVotes_def orphanVote_def scored_def)
  from orphan_votes_not_aggregated_but_counted [OF o f v, of _ "''u1''" NoWeights] a c
  show ?thesis
    by (auto simp: getResults_def getPublicResults_def groupWeightsOf_def f v
        resultsReplyData_def)
qed

section \<open>The tables and the votes\<close>

subsection \<open>What a cell of the project-group scores holds\<close>

text \<open>
  After the votes, the cell of a listed project and a listed group holds the sum and the
  number of the totals of the votes of that group for that project; the average that the
  next pass computes from it is the per-group average of the specification.
\<close>

lemma addScore_total:
  "snd (fold addScore ss (cs, a)) = a + sum_list (map snd ss)"
proof (induction ss arbitrary: cs a)
  case Nil
  then show ?case by simp
next
  case (Cons x ss)
  obtain c s where x: "x = (c, s)" by (cases x)
  obtain cs' where "addScore x (cs, a) = (cs', a + s)"
    by (simp add: addScore_def x Let_def)
  with Cons.IH [of cs' "a + s"] show ?case by (simp add: x algebra_simps)
qed

lemma groupScoreAt_map_entry:
  "groupScoreAt (AList.map_entry p (AList.map_entry g f) pgs) pid gid =
     (if pid = p \<and> gid = g then map_option f (groupScoreAt pgs pid gid)
      else groupScoreAt pgs pid gid)"
  by (auto simp: groupScoreAt_def AList.map_of_map_entry split: option.splits)

lemma groupScoreAt_tallyVote:
  "groupScoreAt (projectGroupScores (tallyVote v t)) pid gid =
     (if counted t v \<and> pid = v_project v \<and> gid = v_group v
      then map_option (\<lambda>s. s\<lparr>gs_total := gs_total s + voteTotal v, gs_count := gs_count s + 1\<rparr>)
             (groupScoreAt (projectGroupScores t) pid gid)
      else groupScoreAt (projectGroupScores t) pid gid)"
proof (cases "counted t v")
  case False
  then show ?thesis by (simp add: tallyVote_not_counted)
next
  case True
  then have "map_of (projectResults t) (v_project v) \<noteq> None"
    and "map_of (groupResults t) (v_group v) \<noteq> None"
    by (simp_all add: counted_def map_of_eq_None_iff)
  then obtain pr gr where pr: "map_of (projectResults t) (v_project v) = Some pr"
    and gr: "map_of (groupResults t) (v_group v) = Some gr"
    by auto
  obtain cs total where f: "fold addScore (v_scores v) (pr_criteriaScores pr, 0) = (cs, total)"
    by (cases "fold addScore (v_scores v) (pr_criteriaScores pr, 0)")
  with addScore_total [of "v_scores v" "pr_criteriaScores pr" 0] have "total = voteTotal v"
    by (simp add: voteTotal_def)
  with True pr gr f show ?thesis
    by (simp add: tallyVote_def groupScoreAt_map_entry)
qed

lemma groupScoreAt_fold:
  assumes "pid \<in> set (map fst (projectResults t))" and "gid \<in> set (map fst (groupResults t))"
  shows "groupScoreAt (projectGroupScores (fold tallyVote votes t)) pid gid =
     map_option (\<lambda>s. s\<lparr>gs_total := gs_total s
                          + sum_list (map voteTotal
                              (filter (\<lambda>v. v_project v = pid \<and> v_group v = gid) votes)),
                        gs_count := gs_count s
                          + length (filter (\<lambda>v. v_project v = pid \<and> v_group v = gid) votes)\<rparr>)
       (groupScoreAt (projectGroupScores t) pid gid)"
  using assms
proof (induction votes arbitrary: t)
  case Nil
  then show ?case by (simp add: option.map_ident)
next
  case (Cons v votes)
  have keys: "pid \<in> set (map fst (projectResults (tallyVote v t)))"
    "gid \<in> set (map fst (groupResults (tallyVote v t)))"
    using Cons.prems by (simp_all add: tallyVote_project_keys tallyVote_group_keys)
  have c: "counted t v" if "v_project v = pid" and "v_group v = gid"
    using that Cons.prems by (simp add: counted_def)
  show ?case
  proof (cases "v_project v = pid \<and> v_group v = gid")
    case True
    with c Cons.IH [OF keys] show ?thesis
      by (simp add: groupScoreAt_tallyVote option.map_comp comp_def algebra_simps)
  next
    case False
    with Cons.IH [OF keys] show ?thesis
      by (auto simp: groupScoreAt_tallyVote)
  qed
qed

lemma groupScoreAt_init:
  assumes "pid \<in> set pids" and "gid \<in> set gids"
  shows "groupScoreAt (initProjectGroupScores pids gids) pid gid
           = Some \<lparr>gs_total = 0, gs_count = 0\<rparr>"
  using assms
  by (simp add: groupScoreAt_def initProjectGroupScores_def
      fold_update_lookup [where kf = "\<lambda>x. x" and xs = pids]
      fold_update_lookup [where kf = "\<lambda>x. x" and xs = gids])

lemma initTally_keys:
  "set (map fst (projectResults (initTally ev gw))) = set (map p_id (e_projects ev))"
  "set (map fst (groupResults (initTally ev gw))) = set (map g_id (e_groups ev))"
  by (simp_all add: initTally_def Let_def initProjectResults_def initGroupResults_def
      fold_update_keys)

lemma groupAverage_tallied:
  assumes "pid \<in> set (map p_id (e_projects ev))" and "gid \<in> set (map g_id (e_groups ev))"
  shows "groupAverage (projectGroupScores (tallied ev votes gw)) pid gid
           = spec_groupAverage votes pid gid"
proof -
  let ?t = "initTally ev gw"
  have p: "pid \<in> set (map fst (projectResults ?t))" and g: "gid \<in> set (map fst (groupResults ?t))"
    using assms by (simp_all only: initTally_keys)
  have "groupScoreAt (projectGroupScores ?t) pid gid = Some \<lparr>gs_total = 0, gs_count = 0\<rparr>"
    using p g by (simp add: initTally_def Let_def groupScoreAt_init)
  with groupScoreAt_fold [OF p g, of votes] show ?thesis
    by (simp add: groupAverage_def tallied_def spec_groupAverage_def Let_def)
qed

subsection \<open>No lookup misses\<close>

lemma fold_update_key_list:
  "map fst acc = map fst acc' \<Longrightarrow>
   map fst (fold (\<lambda>x tbl. AList.update (kf x) (vf x) tbl) xs acc)
     = map fst (fold (\<lambda>x tbl. AList.update (kf x) (vf' x) tbl) xs acc')"
proof (induction xs arbitrary: acc acc')
  case Nil
  then show ?case by simp
next
  case (Cons x xs)
  have "map fst (AList.update (kf x) (vf x) acc) = map fst (AList.update (kf x) (vf' x) acc')"
    using Cons.prems by (simp add: AList.update_keys)
  from Cons.IH [OF this] show ?case by simp
qed

lemma fold_update_distinct_keys:
  "distinct (map fst acc) \<Longrightarrow>
   distinct (map fst (fold (\<lambda>x tbl. AList.update (kf x) (vf x) tbl) xs acc))"
  by (induction xs arbitrary: acc) (simp_all add: AList.distinct_update)

lemma fold_tallyVote_keys:
  "map fst (projectResults (fold tallyVote votes t)) = map fst (projectResults t)"
  "map fst (groupResults (fold tallyVote votes t)) = map fst (groupResults t)"
  by (induction votes arbitrary: t) (simp_all add: tallyVote_project_keys tallyVote_group_keys)

lemma groupVoters_keys:
  "map fst (groupVoters (tallied ev votes gw)) = map fst (groupResults (tallied ev votes gw))"
proof -
  have "map fst (groupResults (tallied ev votes gw)) = map fst (initGroupResults gw ev)"
    by (simp add: tallied_def fold_tallyVote_keys initTally_def Let_def)
  moreover have "map fst (groupVoters (tallied ev votes gw)) = map fst (initGroupVoters ev)"
    by (simp add: tallied_def fold_tallyVote_voters_keys initTally_def Let_def)
  moreover have "map fst (initGroupVoters ev) = map fst (initGroupResults gw ev)"
    unfolding initGroupVoters_def initGroupResults_def
    by (rule fold_update_key_list) simp
  ultimately show ?thesis by simp
qed

lemma groupVoters_defined:
  assumes "(k, g) \<in> set (groupResults (tallied ev votes gw))"
  shows "map_of (groupVoters (tallied ev votes gw)) k \<noteq> None"
proof -
  from assms have "k \<in> set (map fst (groupResults (tallied ev votes gw)))" by force
  then have "k \<in> fst ` set (groupVoters (tallied ev votes gw))"
    by (simp only: groupVoters_keys [symmetric] set_map)
  then show ?thesis by (simp add: map_of_eq_None_iff)
qed

lemma finalGroups_key_set:
  "set (map fst (finalGroups ev votes gw)) = set (map g_id (e_groups ev))"
  by (simp add: finalGroups_def setVoterCounts_def case_prod_unfold comp_def tallied_def
      fold_tallyVote_keys initTally_keys [simplified])

lemma tallied_project_key_set:
  "set (map fst (projectResults (tallied ev votes gw))) = set (map p_id (e_projects ev))"
  by (simp add: tallied_def fold_tallyVote_keys initTally_keys [simplified])

lemma groupScoreAt_defined:
  assumes "(pid, p) \<in> set (projectResults (tallied ev votes gw))"
    and "(gid, g) \<in> set (finalGroups ev votes gw)"
  shows "groupScoreAt (projectGroupScores (tallied ev votes gw)) pid gid \<noteq> None"
proof -
  let ?t = "initTally ev gw"
  from assms(1) have "pid \<in> set (map fst (projectResults (tallied ev votes gw)))" by force
  then have p: "pid \<in> set (map fst (projectResults ?t))"
    by (simp only: tallied_project_key_set initTally_keys)
  from assms(2) have "gid \<in> set (map fst (finalGroups ev votes gw))" by force
  then have g: "gid \<in> set (map fst (groupResults ?t))"
    by (simp only: finalGroups_key_set initTally_keys)
  have "groupScoreAt (projectGroupScores ?t) pid gid = Some \<lparr>gs_total = 0, gs_count = 0\<rparr>"
    using p g by (simp add: initTally_def Let_def groupScoreAt_init)
  with groupScoreAt_fold [OF p g, of votes] show ?thesis
    by (simp add: tallied_def)
qed

lemma groupIdToName_defined:
  assumes "(gid, g) \<in> set (finalGroups ev votes gw)"
  shows "map_of (groupIdToName ev) gid = Some (gr_name g)"
proof -
  have "map (\<lambda>(k, g). (k, gr_name g)) (finalGroups ev votes gw)
        = map (\<lambda>(k, g). (k, gr_name g)) (initGroupResults gw ev)"
    by (rule finalGroups_static) simp_all
  moreover from assms have "(gid, gr_name g) \<in> set (map (\<lambda>(k, g). (k, gr_name g))
      (finalGroups ev votes gw))" by force
  ultimately obtain g0 where g0: "(gid, g0) \<in> set (initGroupResults gw ev)"
    and n: "gr_name g0 = gr_name g" by auto
  have "distinct (map fst (initGroupResults gw ev))"
    unfolding initGroupResults_def by (rule fold_update_distinct_keys) simp
  from map_of_is_SomeI [OF this g0]
  have "map_of (initGroupResults gw ev) gid = Some g0" .
  moreover have "gid \<in> g_id ` set (e_groups ev)"
    using g0 fold_update_keys [of g_id "initialGroup gw" "e_groups ev" "[]"]
    by (force simp: initGroupResults_def)
  ultimately have "g0 = initialGroup gw (last (filter (\<lambda>x. g_id x = gid) (e_groups ev)))"
    by (simp add: initGroupResults_def fold_update_lookup)
  with n have "gr_name g = g_name (last (filter (\<lambda>x. g_id x = gid) (e_groups ev)))"
    by (simp add: initialGroup_def)
  with \<open>gid \<in> g_id ` set (e_groups ev)\<close> show ?thesis
    by (simp add: groupIdToName_def fold_update_lookup)
qed

section \<open>Group averages are keyed by name\<close>

lemma tallied_project_entries:
  assumes "(k, p) \<in> set (projectResults (tallied ev votes gw))"
  shows "pr_id p = k \<and> pr_groupAverages p = []"
proof -
  let ?h = "\<lambda>p. (pr_id p, pr_groupAverages p)"
  have "map (\<lambda>(k, p). (k, ?h p)) (projectResults (tallied ev votes gw))
        = map (\<lambda>(k, p). (k, ?h p)) (initProjectResults ev)"
    by (simp add: tallied_def fold_tallyVote_projects_static [of ?h] initTally_def Let_def)
  moreover from assms have "(k, ?h p) \<in> set (map (\<lambda>(k, p). (k, ?h p))
      (projectResults (tallied ev votes gw)))" by force
  ultimately have "(k, ?h p) \<in> set (map (\<lambda>(k, p). (k, ?h p)) (initProjectResults ev))"
    by simp
  then obtain p' where "(k, p') \<in> set (initProjectResults ev)" and "?h p = ?h p'" by auto
  with initProjectResults_entries [of k p' ev] show ?thesis
    by (auto simp: initialProject_def)
qed

lemma finalGroups_keys:
  assumes "distinct (map g_id (e_groups ev))"
  shows "map fst (finalGroups ev votes gw) = map g_id (e_groups ev)"
proof -
  have "map fst (finalGroups ev votes gw)
        = map fst (map (\<lambda>(k, g). (k, gr_id g, gr_name g, gr_weight g)) (finalGroups ev votes gw))"
    by (simp add: comp_def case_prod_unfold)
  also have "\<dots> = map g_id (e_groups ev)"
    by (simp add: finalGroups_names_weights [OF assms] comp_def)
  finally show ?thesis .
qed

lemma nameOfGroup_event:
  assumes "distinct (map g_id (e_groups ev))" and "g \<in> set (e_groups ev)"
  shows "nameOfGroup (groupIdToName ev) (g_id g) = g_name g"
proof -
  have "distinct (map fst (map (\<lambda>g. (g_id g, g_name g)) (e_groups ev)))"
    using assms(1) by (simp add: comp_def)
  moreover have "(g_id g, g_name g) \<in> set (map (\<lambda>g. (g_id g, g_name g)) (e_groups ev))"
    using assms(2) by auto
  ultimately have "map_of (map (\<lambda>g. (g_id g, g_name g)) (e_groups ev)) (g_id g) = Some (g_name g)"
    by (rule map_of_is_SomeI)
  then show ?thesis
    by (simp add: nameOfGroup_def groupIdToName_distinct [OF assms(1)])
qed

lemma groupAverages_fold_event:
  assumes "distinct (map g_id (e_groups ev))"
  shows "fold (\<lambda>gid ga. AList.update (nameOfGroup (groupIdToName ev) gid) (avg gid) ga)
           (map g_id (e_groups ev)) acc
         = fold (\<lambda>g ga. AList.update (g_name g) (avg (g_id g)) ga) (e_groups ev) acc"
proof -
  have "fold (\<lambda>gid ga. AList.update (nameOfGroup (groupIdToName ev) gid) (avg gid) ga)
           (map g_id (e_groups ev)) acc
        = fold (\<lambda>g ga. AList.update (nameOfGroup (groupIdToName ev) (g_id g)) (avg (g_id g)) ga)
           (e_groups ev) acc"
    by (simp add: fold_map comp_def)
  also have "\<dots> = fold (\<lambda>g ga. AList.update (g_name g) (avg (g_id g)) ga) (e_groups ev) acc"
    by (rule fold_cong) (simp_all add: nameOfGroup_event [OF assms])
  finally show ?thesis .
qed

lemma finalProjects_groupAverages:
  assumes "distinct (map g_id (e_groups ev))" and "e \<in> set (finalProjects ev votes gw)"
  shows "pr_groupAverages (snd e)
         = fold (\<lambda>g ga. AList.update (g_name g)
                   (groupAverage (projectGroupScores (tallied ev votes gw)) (pr_id (snd e)) (g_id g)) ga)
             (e_groups ev) []"
proof -
  let ?t = "tallied ev votes gw"
  let ?grs = "finalGroups ev votes gw"
  from assms(2) have "e \<in> setFinalScore ?grs `
      (setAverages (groupIdToName ev) (projectGroupScores ?t) (map fst ?grs) ` set (projectResults ?t))"
    by (simp only: finalProjects_def Let_def set_map)
  then obtain k p where kp: "(k, p) \<in> set (projectResults ?t)"
    and e: "e = setFinalScore ?grs
        (setAverages (groupIdToName ev) (projectGroupScores ?t) (map fst ?grs) (k, p))"
    by auto
  from tallied_project_entries [OF kp] have k: "pr_id p = k" and ga: "pr_groupAverages p = []"
    by simp_all
  have "pr_id (snd e) = k"
    using e k by (simp add: setFinalScore_def setAverages_def Let_def split: prod.splits)
  moreover have "pr_groupAverages (snd e)
      = fold (\<lambda>gid ga. AList.update (nameOfGroup (groupIdToName ev) gid)
                (groupAverage (projectGroupScores ?t) k gid) ga) (map fst ?grs) []"
    using e ga by (simp add: setFinalScore_def setAverages_def Let_def split: prod.splits)
  ultimately show ?thesis
    by (simp only: finalGroups_keys [OF assms(1)] groupAverages_fold_event [OF assms(1)])
qed

lemma res_projects_groupAverages:
  assumes "distinct (map g_id (e_groups ev))"
    and "r \<in> set (res_projects (calculateResults ev votes gw))"
  shows "map_of (pr_groupAverages r) n =
     (if n \<in> g_name ` set (e_groups ev)
      then Some (groupAverage (projectGroupScores (tallied ev votes gw)) (pr_id r)
                   (g_id (last (filter (\<lambda>h. g_name h = n) (e_groups ev)))))
      else None)"
proof -
  from res_projects_member [OF assms(2)] obtain e m
    where e: "e \<in> set (finalProjects ev votes gw)" and r: "r = (snd e)\<lparr>pr_rank := m\<rparr>" by blast
  from r have "pr_groupAverages r = pr_groupAverages (snd e)" and "pr_id r = pr_id (snd e)"
    by simp_all
  with finalProjects_groupAverages [OF assms(1) e]
  have "pr_groupAverages r
         = fold (\<lambda>g ga. AList.update (g_name g)
                   (groupAverage (projectGroupScores (tallied ev votes gw)) (pr_id r) (g_id g)) ga)
             (e_groups ev) []" by simp
  then show ?thesis by (simp only: fold_update_lookup) simp
qed

lemma finalProjects_source:
  assumes "e \<in> set (finalProjects ev votes gw)"
  shows "\<exists>k p. (k, p) \<in> set (projectResults (tallied ev votes gw)) \<and>
           e = setFinalScore (finalGroups ev votes gw)
                 (setAverages (groupIdToName ev) (projectGroupScores (tallied ev votes gw))
                    (map fst (finalGroups ev votes gw)) (k, p))"
proof -
  let ?t = "tallied ev votes gw"
  let ?grs = "finalGroups ev votes gw"
  from assms have "e \<in> setFinalScore ?grs `
      (setAverages (groupIdToName ev) (projectGroupScores ?t) (map fst ?grs) ` set (projectResults ?t))"
    by (simp only: finalProjects_def Let_def set_map)
  then obtain x where "x \<in> set (projectResults ?t)"
    and "e = setFinalScore ?grs
        (setAverages (groupIdToName ev) (projectGroupScores ?t) (map fst ?grs) x)" by blast
  moreover obtain k p where "x = (k, p)" by (cases x)
  ultimately show ?thesis by blast
qed

lemma finalProjects_groupAverages_raw:
  assumes "e \<in> set (finalProjects ev votes gw)"
  shows "pr_id (snd e) \<in> set (map p_id (e_projects ev)) \<and>
         pr_groupAverages (snd e)
           = fold (\<lambda>gid ga. AList.update (nameOfGroup (groupIdToName ev) gid)
                     (groupAverage (projectGroupScores (tallied ev votes gw)) (pr_id (snd e)) gid) ga)
               (map fst (finalGroups ev votes gw)) []"
proof -
  from finalProjects_source [OF assms] obtain k p
    where kp: "(k, p) \<in> set (projectResults (tallied ev votes gw))"
      and e: "e = setFinalScore (finalGroups ev votes gw)
                 (setAverages (groupIdToName ev) (projectGroupScores (tallied ev votes gw))
                    (map fst (finalGroups ev votes gw)) (k, p))" by blast
  from tallied_project_entries [OF kp] have k: "pr_id p = k" and ga: "pr_groupAverages p = []"
    by simp_all
  from kp have "k \<in> set (map fst (projectResults (tallied ev votes gw)))" by force
  then have "k \<in> set (map p_id (e_projects ev))" by (simp only: tallied_project_key_set)
  moreover have "pr_id (snd e) = k"
    using e k by (simp add: setFinalScore_def setAverages_def Let_def split: prod.splits)
  moreover have "pr_groupAverages (snd e)
      = fold (\<lambda>gid ga. AList.update (nameOfGroup (groupIdToName ev) gid)
                (groupAverage (projectGroupScores (tallied ev votes gw)) k gid) ga)
          (map fst (finalGroups ev votes gw)) []"
    using e ga by (simp add: setFinalScore_def setAverages_def Let_def split: prod.splits)
  ultimately show ?thesis by simp
qed

lemma res_projects_id:
  assumes "r \<in> set (res_projects (calculateResults ev votes gw))"
  shows "pr_id r \<in> set (map p_id (e_projects ev))"
proof -
  from res_projects_member [OF assms] obtain e m
    where e: "e \<in> set (finalProjects ev votes gw)" and r: "r = (snd e)\<lparr>pr_rank := m\<rparr>" by blast
  with finalProjects_groupAverages_raw [OF e] show ?thesis by simp
qed

lemma groupAverages_defined:
  assumes "r \<in> set (res_projects (calculateResults ev votes gw))"
    and "(gid, g) \<in> set (finalGroups ev votes gw)"
  shows "map_of (pr_groupAverages r) (gr_name g) \<noteq> None"
proof -
  from res_projects_member [OF assms(1)] obtain e m
    where e: "e \<in> set (finalProjects ev votes gw)" and r: "r = (snd e)\<lparr>pr_rank := m\<rparr>" by blast
  from groupIdToName_defined [OF assms(2)]
  have n: "nameOfGroup (groupIdToName ev) gid = gr_name g" by (simp add: nameOfGroup_def)
  from assms(2) have "gid \<in> set (map fst (finalGroups ev votes gw))" by force
  with n have "gr_name g \<in> nameOfGroup (groupIdToName ev) ` set (map fst (finalGroups ev votes gw))"
    by force
  then have "gr_name g \<in> fst ` set (pr_groupAverages (snd e))"
    using finalProjects_groupAverages_raw [OF e] by (simp add: fold_update_keys)
  with r show ?thesis by (simp add: map_of_eq_None_iff)
qed

lemma last_named_group:
  assumes "g \<in> set (e_groups ev)"
  shows "last (filter (\<lambda>h. g_name h = g_name g) (e_groups ev)) \<in> set (e_groups ev)"
proof -
  from assms have ne: "filter (\<lambda>h. g_name h = g_name g) (e_groups ev) \<noteq> []"
    by (auto simp: filter_empty_conv)
  from last_in_set [OF ne] show ?thesis by simp
qed


lemma res_projects_groupAverages_spec:
  assumes "distinct (map g_id (e_groups ev))"
    and "r \<in> set (res_projects (calculateResults ev votes gw))"
    and "g \<in> set (e_groups ev)"
  shows "map_of (pr_groupAverages r) (g_name g)
           = Some (spec_groupAverage votes (pr_id r)
                     (g_id (last (filter (\<lambda>h. g_name h = g_name g) (e_groups ev)))))"
proof -
  from last_named_group [OF assms(3)]
  have "g_id (last (filter (\<lambda>h. g_name h = g_name g) (e_groups ev))) \<in> set (map g_id (e_groups ev))"
    by simp
  from groupAverage_tallied [OF res_projects_id [OF assms(2)] this, where gw = gw] assms(3)
  show ?thesis by (simp add: res_projects_groupAverages [OF assms(1,2)])
qed

text \<open>
  Claim C10. The \<^verbatim>\<open>groupAverages\<close> of a project record are keyed by the group's name: the
  entry for a name is the average, over the votes for that project, of the last group of
  the event's list that bears the name, so a later group's average overwrites that of an
  earlier group of the same name. The final score then weighs, for every group, the
  surviving average of its name with the group's own weight.
\<close>

theorem groupAverages_keyed_by_name:
  assumes "distinct (map g_id (e_groups ev))"
    and "r \<in> set (res_projects (calculateResults ev votes gw))"
  shows "(\<forall>g\<in>set (e_groups ev).
            map_of (pr_groupAverages r) (g_name g)
              = Some (spec_groupAverage votes (pr_id r)
                        (g_id (last (filter (\<lambda>h. g_name h = g_name g) (e_groups ev)))))) \<and>
         pr_finalScore r =
           (if 0 < (\<Sum>g\<leftarrow>e_groups ev. effectiveWeight gw g)
            then (\<Sum>g\<leftarrow>e_groups ev.
                    spec_groupAverage votes (pr_id r)
                      (g_id (last (filter (\<lambda>h. g_name h = g_name g) (e_groups ev))))
                    * effectiveWeight gw g)
                 / (\<Sum>g\<leftarrow>e_groups ev. effectiveWeight gw g)
            else 0)"
proof -
  let ?avg = "\<lambda>g. spec_groupAverage votes (pr_id r)
                        (g_id (last (filter (\<lambda>h. g_name h = g_name g) (e_groups ev))))"
  have lookup: "map_of (pr_groupAverages r) (g_name g) = Some (?avg g)" if "g \<in> set (e_groups ev)" for g
    using that by (rule res_projects_groupAverages_spec [OF assms])
  then have "groupAverageOf r (g_name g) = ?avg g" if "g \<in> set (e_groups ev)" for g
    using that by (simp add: groupAverageOf_def)
  then have "map (\<lambda>g. groupAverageOf r (g_name g) * effectiveWeight gw g) (e_groups ev)
        = map (\<lambda>g. ?avg g * effectiveWeight gw g) (e_groups ev)"
    by simp
  with res_projects_finalScore [OF assms(2)] weightedTotals_event [OF assms(1), of votes gw r]
  have "pr_finalScore r =
           (if 0 < (\<Sum>g\<leftarrow>e_groups ev. effectiveWeight gw g)
            then (\<Sum>g\<leftarrow>e_groups ev. ?avg g * effectiveWeight gw g)
                 / (\<Sum>g\<leftarrow>e_groups ev. effectiveWeight gw g)
            else 0)" by simp
  with lookup show ?thesis by blast
qed

text \<open>
  With both groups named Judges, the first averaging 10 and the second 4 for Alpha, the
  single entry is 4 and the final score is \<open>(4 * 70 + 4 * 30) / 100 = 4\<close>.
\<close>

theorem groupAverages_keyed_by_name_witness:
  "map pr_groupAverages (res_projects (calculateResults twinEvent demoVotes None))
     = [[(''Judges'', 4)], [(''Judges'', 0)]] \<and>
   map pr_finalScore (res_projects (calculateResults twinEvent demoVotes None)) = [4, 0]"
proof -
  have d: "distinct (map g_id (e_groups twinEvent))"
    by (simp add: twinEvent_def demo_defs)
  have "res_projects (calculateResults twinEvent demoVotes None) \<noteq> []"
    using twin_results by auto
  then have r: "hd (res_projects (calculateResults twinEvent demoVotes None))
      \<in> set (res_projects (calculateResults twinEvent demoVotes None))" by simp
  from groupAverages_keyed_by_name [OF d r] show ?thesis
    by (simp add: twin_results)
qed

section \<open>Final score\<close>




end
